theory Spec2Isabelle
  imports Main "HOL-Library.AList"
begin

section \<open>Data model of the graph reconciliation shim\<close>

text \<open>
  The development follows \<^verbatim>\<open>webapp/src/shell/vscode-electron-shim.ts\<close>.
  Strings are lists of code units. Canvas coordinates are only copied by the code, never
  computed with, so they are integers here.
\<close>

record position =
  x :: int
  y :: int

text \<open>
  \<^verbatim>\<open>nodeUIMetadata.position\<close> is an fp-ts \<^verbatim>\<open>Option\<close>: \<^verbatim>\<open>O.none\<close> is
  \<open>None\<close> and \<^verbatim>\<open>O.some(p)\<close> is \<open>Some p\<close>.
\<close>

record ui_metadata =
  position :: "position option"

text \<open>
  Modelled from the spec: the declaration of the node type lives in \<^verbatim>\<open>@/pure/graph\<close>.
  The shim reads \<^verbatim>\<open>absoluteFilePathIsID\<close> and \<^verbatim>\<open>nodeUIMetadata.position\<close>;
  the content and the outgoing edges are the remaining attributes of the data model.
\<close>

record node =
  absoluteFilePathIsID :: string
  content :: string
  outgoingEdges :: "string list"
  nodeUIMetadata :: ui_metadata

text \<open>
  \<^verbatim>\<open>Graph.nodes\<close> is a JavaScript object keyed by node id. Its keys are file paths, so
  \<^verbatim>\<open>Object.keys\<close> enumerates them in insertion order: an association list where
  assigning to a present key keeps its place and assigning to a new key appends it
  (\<open>AList.update\<close>), and \<^verbatim>\<open>delete\<close> removes the key (\<open>AList.delete\<close>).
\<close>

record graph =
  nodes :: "(string \<times> node) list"

datatype node_delta =
  UpsertNode (nodeToUpsert: node)
  | DeleteNode (nodeId: string)

type_synonym graph_delta = "node_delta list"

text \<open>An entry of the batch handed to \<^verbatim>\<open>saveNodePositions\<close>: \<^verbatim>\<open>{ data: { id }, position? }\<close>.\<close>

record cy_node =
  cy_id :: string
  cy_position :: "position option"

text \<open>One file of the listing returned by the backend's \<^verbatim>\<open>/files\<close> endpoint.\<close>

record file_entry =
  path :: string
  file_content :: string

datatype event_type = Added | Modified | Removed

record fs_update =
  absolutePath :: string
  fs_content :: string
  eventType :: event_type

text \<open>
  What leaves the module, in the order it leaves: the HTTP requests sent to the backend
  and the calls of the registered UI callback.
\<close>

datatype effect =
  FetchWriteNode string string
  | FetchDeleteNode string
  | FetchLoadDirectory
  | FetchFiles
  | UICallback graph_delta

text \<open>The callbacks handed to \<^verbatim>\<open>setTimeout\<close>, with their delay in milliseconds.\<close>

datatype timeout_action = ClearSuppressPolling

text \<open>
  The module-level state. \<open>graphUpdateCallback\<close> records whether a subscriber is
  registered (its calls are in \<open>effects\<close>); \<open>backendPort\<close> is \<open>None\<close> for
  \<^verbatim>\<open>null\<close>. The arrays \<open>undoStack\<close> and \<open>redoStack\<close> have their oldest entry
  first: \<^verbatim>\<open>push\<close> appends, \<^verbatim>\<open>pop\<close> takes the last, \<^verbatim>\<open>shift\<close> drops the first.
\<close>

record state =
  vscodePath :: string
  currentGraph :: "graph option"
  graphUpdateCallback :: bool
  backendPort :: "int option"
  lastFileFingerprint :: string
  undoStack :: "graph list"
  redoStack :: "graph list"
  suppressPolling :: bool
  timeouts :: "(nat \<times> timeout_action) list"
  effects :: "effect list"

definition MAX_UNDO :: nat where
  "MAX_UNDO = 30"

definition initialState :: "string \<Rightarrow> int option \<Rightarrow> state" where
  "initialState vp port =
     \<lparr>vscodePath = vp, currentGraph = None, graphUpdateCallback = False, backendPort = port,
      lastFileFingerprint = [], undoStack = [], redoStack = [],
      suppressPolling = False, timeouts = [], effects = []\<rparr>"

definition emptyGraph :: graph where
  "emptyGraph = \<lparr>nodes = []\<rparr>"

definition getCurrentGraph :: "state \<Rightarrow> graph" where
  "getCurrentGraph s = (case currentGraph s of Some g \<Rightarrow> g | None \<Rightarrow> emptyGraph)"

text \<open>\<^verbatim>\<open>!_backendPort\<close> holds for \<^verbatim>\<open>null\<close> and for \<^verbatim>\<open>0\<close>.\<close>

definition portSet :: "state \<Rightarrow> bool" where
  "portSet s = (case backendPort s of Some p \<Rightarrow> p \<noteq> 0 | None \<Rightarrow> False)"

text \<open>\<^verbatim>\<open>structuredClone\<close> copies a graph; values have no identity here.\<close>

definition structuredClone :: "graph \<Rightarrow> graph" where
  "structuredClone g = g"

definition lookupNode :: "graph \<Rightarrow> string \<Rightarrow> node option" where
  "lookupNode g k = map_of (nodes g) k"

definition nodeIds :: "graph \<Rightarrow> string list" where
  "nodeIds g = map fst (nodes g)"

section \<open>Delta applier\<close>

text \<open>
  Modelled from the spec: \<^verbatim>\<open>applyGraphDeltaToGraph\<close> of
  \<^verbatim>\<open>@/pure/graph/graphDelta/applyGraphDeltaToGraph\<close> is not among the sources. An
  upsert inserts the node or fully replaces the stored one; a delete removes the node and
  is a no-op for an absent id; operations apply in the order of the delta.
\<close>

fun applyOp :: "graph \<Rightarrow> node_delta \<Rightarrow> graph" where
  "applyOp g (UpsertNode n) = g\<lparr>nodes := AList.update (absoluteFilePathIsID n) n (nodes g)\<rparr>"
| "applyOp g (DeleteNode k) = g\<lparr>nodes := AList.delete k (nodes g)\<rparr>"

definition applyGraphDeltaToGraph :: "graph \<Rightarrow> graph_delta \<Rightarrow> graph" where
  "applyGraphDeltaToGraph g delta = foldl applyOp g delta"

text \<open>
  Modelled from the spec: \<^verbatim>\<open>mapNewGraphToDelta\<close> of \<^verbatim>\<open>@/pure/graph\<close> is not among
  the sources: one \<open>UpsertNode\<close> for every node of the graph.
\<close>

definition mapNewGraphToDelta :: "graph \<Rightarrow> graph_delta" where
  "mapNewGraphToDelta g = map (\<lambda>kv. UpsertNode (snd kv)) (nodes g)"

section \<open>Saving node positions\<close>

text \<open>
  The copy \<^verbatim>\<open>{ ..._currentGraph.nodes }\<close> is a plain object: reading a name that is not
  one of its keys finds the property of that name on \<^verbatim>\<open>Object.prototype\<close>, if there is
  one. These are the names; each of them reads a function, or for \<^verbatim>\<open>__proto__\<close> the
  prototype itself, and so passes the test \<^verbatim>\<open>!graph.nodes[nodeId]\<close>.
\<close>

definition objectPrototypeNames :: "string list" where
  "objectPrototypeNames =
     [''constructor'', ''__defineGetter__'', ''__defineSetter__'', ''hasOwnProperty'',
      ''__lookupGetter__'', ''__lookupSetter__'', ''isPrototypeOf'', ''propertyIsEnumerable'',
      ''toString'', ''valueOf'', ''__proto__'', ''toLocaleString'']"

text \<open>
  What the loop does with an entry that has a position and whose id is no key of the graph
  but a name of \<^verbatim>\<open>Object.prototype\<close>: the value read has no fields to spread and no
  \<^verbatim>\<open>nodeUIMetadata\<close>, so the object assigned holds nothing but
  \<^verbatim>\<open>nodeUIMetadata: { position }\<close>. The assignment adds it as a new key, or for
  \<^verbatim>\<open>__proto__\<close> makes it the prototype of the object. It is not a node, and the graph
  type has no place for it: the model of the loop ends there and says what was assigned.
\<close>

datatype save_stop =
  NonNodeStored string position
  | PrototypeReplaced position

text \<open>
  The body of the loop of \<^verbatim>\<open>saveNodePositions\<close>: an entry without a position is
  skipped; an entry whose id is a key is stored again with only the position of its
  metadata replaced; an entry whose id reads nothing at all is skipped.
\<close>

definition savePositionStep :: "graph \<Rightarrow> cy_node \<Rightarrow> save_stop + graph" where
  "savePositionStep g cyNode =
     (case cy_position cyNode of
        None \<Rightarrow> Inr g
      | Some pos \<Rightarrow>
          (case map_of (nodes g) (cy_id cyNode) of
             Some n \<Rightarrow>
               Inr (g\<lparr>nodes := AList.update (cy_id cyNode)
                    (n\<lparr>nodeUIMetadata := (nodeUIMetadata n)\<lparr>position := Some \<lparr>x = x pos, y = y pos\<rparr>\<rparr>\<rparr>)
                    (nodes g)\<rparr>)
           | None \<Rightarrow>
               if cy_id cyNode \<in> set objectPrototypeNames
               then (if cy_id cyNode = ''__proto__''
                     then Inl (PrototypeReplaced \<lparr>x = x pos, y = y pos\<rparr>)
                     else Inl (NonNodeStored (cy_id cyNode) \<lparr>x = x pos, y = y pos\<rparr>))
               else Inr g))"

fun savePositionLoop :: "graph \<Rightarrow> cy_node list \<Rightarrow> save_stop + graph" where
  "savePositionLoop g [] = Inr g"
| "savePositionLoop g (cyNode # cyNodes) =
     (case savePositionStep g cyNode of
        Inl stop \<Rightarrow> Inl stop
      | Inr g' \<Rightarrow> savePositionLoop g' cyNodes)"

definition saveNodePositions :: "cy_node list \<Rightarrow> state \<Rightarrow> save_stop + state" where
  "saveNodePositions cyNodes s =
     (case currentGraph s of
        None \<Rightarrow> Inr s
      | Some g \<Rightarrow>
          (case savePositionLoop g cyNodes of
             Inl stop \<Rightarrow> Inl stop
           | Inr g' \<Rightarrow> Inr (s\<lparr>currentGraph := Some g'\<rparr>)))"

section \<open>Backend helpers\<close>

text \<open>
  What a \<^verbatim>\<open>fetch\<close> of a write or delete request can do: reject (a transport error),
  answer with a status that is not OK, or answer OK.
\<close>

datatype fetch_result = FetchThrows | FetchNotOk | FetchOk

text \<open>
  \<^verbatim>\<open>backendWriteNode\<close> and \<^verbatim>\<open>backendDeleteNode\<close>: no request without a port; a
  rejected fetch is caught and reported as \<^verbatim>\<open>false\<close>.
\<close>

definition backendWriteNode :: "fetch_result \<Rightarrow> string \<Rightarrow> string \<Rightarrow> state \<Rightarrow> bool \<times> state" where
  "backendWriteNode r filePath c s =
     (if \<not> portSet s then (False, s)
      else (case r of FetchThrows \<Rightarrow> False | FetchNotOk \<Rightarrow> False | FetchOk \<Rightarrow> True,
            s\<lparr>effects := effects s @ [FetchWriteNode filePath c]\<rparr>))"

definition backendDeleteNode :: "fetch_result \<Rightarrow> string \<Rightarrow> state \<Rightarrow> bool \<times> state" where
  "backendDeleteNode r filePath s =
     (if \<not> portSet s then (False, s)
      else (case r of FetchThrows \<Rightarrow> False | FetchNotOk \<Rightarrow> False | FetchOk \<Rightarrow> True,
            s\<lparr>effects := effects s @ [FetchDeleteNode filePath]\<rparr>))"

definition endsWith :: "string \<Rightarrow> string \<Rightarrow> bool" where
  "endsWith str suf = (length suf \<le> length str \<and> drop (length str - length suf) str = suf)"

definition mdPath :: "string \<Rightarrow> string" where
  "mdPath p = (if endsWith p ''.md'' then p else p @ ''.md'')"

section \<open>Applying a local edit\<close>

text \<open>
  One turn of the loop over the delta in \<^verbatim>\<open>applyGraphDelta\<close>; the boolean that the
  helper returns is dropped, as in the source. \<open>toMd\<close> stands for
  \<^verbatim>\<open>fromNodeToMarkdownContent\<close>, which is not among the sources.
\<close>

fun persistOp :: "(node \<Rightarrow> string) \<Rightarrow> fetch_result \<Rightarrow> node_delta \<Rightarrow> state \<Rightarrow> state" where
  "persistOp toMd r (UpsertNode n) s =
     snd (backendWriteNode r (mdPath (absoluteFilePathIsID n)) (toMd n) s)"
| "persistOp toMd r (DeleteNode k) s = snd (backendDeleteNode r (mdPath k) s)"

text \<open>\<open>net i\<close> is what the backend does with the request of the \<open>i\<close>-th operation.\<close>

fun persistDelta :: "(node \<Rightarrow> string) \<Rightarrow> (nat \<Rightarrow> fetch_result) \<Rightarrow> graph_delta \<Rightarrow> state \<Rightarrow> state" where
  "persistDelta toMd net [] s = s"
| "persistDelta toMd net (d # ds) s =
     persistDelta toMd (\<lambda>i. net (Suc i)) ds (persistOp toMd (net 0) d s)"

definition saveUndoState :: "state \<Rightarrow> state" where
  "saveUndoState s =
     (case currentGraph s of
        None \<Rightarrow> s
      | Some g \<Rightarrow>
          (let pushed = undoStack s @ [structuredClone g]
           in s\<lparr>undoStack := (if length pushed > MAX_UNDO then tl pushed else pushed),
                redoStack := []\<rparr>))"

definition notifyUI :: "graph_delta \<Rightarrow> state \<Rightarrow> state" where
  "notifyUI delta s =
     (if graphUpdateCallback s then s\<lparr>effects := effects s @ [UICallback delta]\<rparr> else s)"

definition applyGraphDelta :: "(node \<Rightarrow> string) \<Rightarrow> (nat \<Rightarrow> fetch_result) \<Rightarrow> graph_delta \<Rightarrow> state \<Rightarrow> state" where
  "applyGraphDelta toMd net delta s =
     (if delta = [] then s
      else
        (let s1 = saveUndoState s;
             s2 = s1\<lparr>currentGraph := Some (applyGraphDeltaToGraph (getCurrentGraph s1) delta)\<rparr>;
             s3 = persistDelta toMd net delta s2;
             s4 = notifyUI delta s3
         in s4\<lparr>lastFileFingerprint := []\<rparr>))"

section \<open>Undo and redo\<close>

definition pushFullGraphToUI :: "graph option \<Rightarrow> state \<Rightarrow> state" where
  "pushFullGraphToUI previousGraph s =
     (case currentGraph s of
        None \<Rightarrow> s
      | Some cur \<Rightarrow>
          if \<not> graphUpdateCallback s then s
          else
            (let upsertDeltas = mapNewGraphToDelta cur;
                 deleteDeltas =
                   (case previousGraph of
                      None \<Rightarrow> []
                    | Some prev \<Rightarrow>
                        map DeleteNode (filter (\<lambda>k. k \<notin> set (nodeIds cur)) (nodeIds prev)))
             in s\<lparr>effects := effects s @ [UICallback (deleteDeltas @ upsertDeltas)],
                  lastFileFingerprint := []\<rparr>))"

definition performUndo :: "state \<Rightarrow> state" where
  "performUndo s =
     (if undoStack s = [] then s
      else
        (let s1 = s\<lparr>suppressPolling := True\<rparr>;
             prev = last (undoStack s1);
             s2 = s1\<lparr>undoStack := butlast (undoStack s1)\<rparr>;
             beforeGraph = currentGraph s2;
             s3 = (case currentGraph s2 of
                     None \<Rightarrow> s2
                   | Some g \<Rightarrow> s2\<lparr>redoStack := redoStack s2 @ [structuredClone g]\<rparr>);
             s4 = s3\<lparr>currentGraph := Some prev\<rparr>;
             s5 = pushFullGraphToUI beforeGraph s4
         in s5\<lparr>timeouts := timeouts s5 @ [(5000, ClearSuppressPolling)]\<rparr>))"

definition performRedo :: "state \<Rightarrow> state" where
  "performRedo s =
     (if redoStack s = [] then s
      else
        (let s1 = s\<lparr>suppressPolling := True\<rparr>;
             next = last (redoStack s1);
             s2 = s1\<lparr>redoStack := butlast (redoStack s1)\<rparr>;
             beforeGraph = currentGraph s2;
             s3 = (case currentGraph s2 of
                     None \<Rightarrow> s2
                   | Some g \<Rightarrow> s2\<lparr>undoStack := undoStack s2 @ [structuredClone g]\<rparr>);
             s4 = s3\<lparr>currentGraph := Some next\<rparr>;
             s5 = pushFullGraphToUI beforeGraph s4
         in s5\<lparr>timeouts := timeouts s5 @ [(5000, ClearSuppressPolling)]\<rparr>))"

text \<open>
  The timers all have the same delay, so the oldest pending one expires first; its
  callback is \<^verbatim>\<open>() => { _suppressPolling = false; }\<close>.
\<close>

fun runTimeout :: "timeout_action \<Rightarrow> state \<Rightarrow> state" where
  "runTimeout ClearSuppressPolling s = s\<lparr>suppressPolling := False\<rparr>"

definition fireTimeout :: "state \<Rightarrow> state" where
  "fireTimeout s =
     (case timeouts s of
        [] \<Rightarrow> s
      | t # ts \<Rightarrow> runTimeout (snd t) (s\<lparr>timeouts := ts\<rparr>))"

section \<open>Fingerprint of a listing\<close>

definition digitChar :: "nat \<Rightarrow> char" where
  "digitChar d = ''0123456789'' ! d"

text \<open>The decimal numeral that a template literal prints for a length.\<close>

function showNat :: "nat \<Rightarrow> string" where
  "showNat n = (if n < 10 then [digitChar n] else showNat (n div 10) @ [digitChar (n mod 10)])"
  by pat_completeness auto
termination
  by (relation "measure id") auto

declare showNat.simps [simp del]

text \<open>\<^verbatim>\<open>Array.prototype.join\<close>.\<close>

fun joinWith :: "string \<Rightarrow> string list \<Rightarrow> string" where
  "joinWith sep [] = []"
| "joinWith sep [a] = a"
| "joinWith sep (a # b # rest) = a @ sep @ joinWith sep (b # rest)"

definition fingerprintEntry :: "file_entry \<Rightarrow> string" where
  "fingerprintEntry f =
     path f @ '':'' @ showNat (length (file_content f)) @ '':'' @ take 200 (file_content f)"

definition fingerprintOf :: "file_entry list \<Rightarrow> string" where
  "fingerprintOf files = joinWith ''|'' (map fingerprintEntry files)"

section \<open>Rebuilding the graph from a listing\<close>

text \<open>
  Modelled from the spec: \<^verbatim>\<open>createEmptyGraph\<close> of \<^verbatim>\<open>@/pure/graph/createGraph\<close> is
  not among the sources: the graph without nodes, which the shim writes \<^verbatim>\<open>{ nodes: {} }\<close>.
\<close>

definition createEmptyGraph :: graph where
  "createEmptyGraph = \<lparr>nodes = []\<rparr>"

text \<open>
  Modelled from the spec: \<^verbatim>\<open>addNodeToGraphWithEdgeHealingFromFSEvent\<close> of
  \<^verbatim>\<open>@/pure/graph/graphDelta\<close> is not among the sources. The event's node is built from
  its path and content, with no position; of the references parsed from the content, those
  naming an id already in the graph so far become edges, the others are left unresolved;
  the node is reported as one \<open>UpsertNode\<close> (a removal as the \<open>DeleteNode\<close> of its
  path; the poll cycle only sends \<open>Added\<close>). Parsing references out of content is
  outside the engine: \<open>parseRefs\<close> gives the node ids that a content refers to.
\<close>

definition addNodeToGraphWithEdgeHealingFromFSEvent ::
  "(string \<Rightarrow> string list) \<Rightarrow> fs_update \<Rightarrow> graph \<Rightarrow> graph_delta" where
  "addNodeToGraphWithEdgeHealingFromFSEvent parseRefs fsEvent g =
     (case eventType fsEvent of
        Removed \<Rightarrow> [DeleteNode (absolutePath fsEvent)]
      | _ \<Rightarrow>
          [UpsertNode
             \<lparr>absoluteFilePathIsID = absolutePath fsEvent,
              content = fs_content fsEvent,
              outgoingEdges = filter (\<lambda>t. t \<in> set (nodeIds g)) (parseRefs (fs_content fsEvent)),
              nodeUIMetadata = \<lparr>position = None\<rparr>\<rparr>])"

text \<open>The loop "Build graph progressively" of \<^verbatim>\<open>loadAndPushGraph\<close>.\<close>

fun buildGraph ::
  "(string \<Rightarrow> string list) \<Rightarrow> file_entry list \<Rightarrow> graph \<times> graph_delta \<Rightarrow> graph \<times> graph_delta" where
  "buildGraph parseRefs [] (g, allDeltas) = (g, allDeltas)"
| "buildGraph parseRefs (file # files) (g, allDeltas) =
     (let fsEvent = \<lparr>absolutePath = path file, fs_content = file_content file, eventType = Added\<rparr>;
          delta = addNodeToGraphWithEdgeHealingFromFSEvent parseRefs fsEvent g
      in if length delta > 0
         then buildGraph parseRefs files (applyGraphDeltaToGraph g delta, allDeltas @ delta)
         else buildGraph parseRefs files (g, allDeltas))"

text \<open>
  The loop "Preserve positions from previous graph": for every key of the new nodes, a
  position that the previous graph holds for that key is written over the new node's one.
  The keys come from \<open>newNodes\<close> itself, so the lookup in it always finds the node.
\<close>

definition preserveStep :: "(string \<times> node) list \<Rightarrow> (string \<times> node) list \<Rightarrow> string \<Rightarrow> (string \<times> node) list" where
  "preserveStep prevNodes newNodes k =
     (case map_of prevNodes k of
        None \<Rightarrow> newNodes
      | Some prevNode \<Rightarrow>
          (case position (nodeUIMetadata prevNode) of
             None \<Rightarrow> newNodes
           | Some prevPos \<Rightarrow>
               (case map_of newNodes k of
                  None \<Rightarrow> newNodes
                | Some n \<Rightarrow>
                    AList.update k
                      (n\<lparr>nodeUIMetadata := (nodeUIMetadata n)\<lparr>position := Some prevPos\<rparr>\<rparr>)
                      newNodes)))"

definition preservePositions :: "graph \<Rightarrow> graph \<Rightarrow> graph" where
  "preservePositions prev g =
     g\<lparr>nodes := foldl (preserveStep (nodes prev)) (nodes g) (map fst (nodes g))\<rparr>"

section \<open>The poll cycle\<close>

text \<open>
  What the fetch of \<^verbatim>\<open>/files\<close> can give: a rejection or a body that is not JSON (both
  land in the \<^verbatim>\<open>catch\<close>), a status that is not OK, a body without \<^verbatim>\<open>files\<close>, or a
  listing.
\<close>

datatype files_response = FilesThrows | FilesNotOk | FilesMissing | FilesOk "file_entry list"

definition loadAndPushGraph ::
  "(string \<Rightarrow> string list) \<Rightarrow> files_response \<Rightarrow> state \<Rightarrow> bool \<times> state" where
  "loadAndPushGraph parseRefs resp s =
     (if \<not> portSet s then (False, s)
      else if suppressPolling s then (False, s)
      else
        (let s1 = (if currentGraph s = None \<and> vscodePath s \<noteq> []
                   then s\<lparr>effects := effects s @ [FetchLoadDirectory]\<rparr> else s);
             s2 = s1\<lparr>effects := effects s1 @ [FetchFiles]\<rparr>
         in case resp of
              FilesThrows \<Rightarrow> (False, s2)
            | FilesNotOk \<Rightarrow> (False, s2)
            | FilesMissing \<Rightarrow> (False, s2)
            | FilesOk files \<Rightarrow>
                (let fingerprint = fingerprintOf files
                 in if fingerprint = lastFileFingerprint s2 then (False, s2)
                    else
                      (let s3 = s2\<lparr>lastFileFingerprint := fingerprint\<rparr>
                       in if length files = 0
                          then (False, s3\<lparr>currentGraph := Some emptyGraph\<rparr>)
                          else
                            (let built = buildGraph parseRefs files (createEmptyGraph, []);
                                 allDeltas = snd built;
                                 g = (case currentGraph s3 of
                                        None \<Rightarrow> fst built
                                      | Some cur \<Rightarrow> preservePositions cur (fst built));
                                 s4 = s3\<lparr>currentGraph := Some g\<rparr>;
                                 s5 = (if length allDeltas > 0 then notifyUI allDeltas s4 else s4)
                             in (length allDeltas > 0, s5))))))"

text \<open>\<^verbatim>\<open>refreshGraphFromBackend\<close>: forget the fingerprint, then poll.\<close>

definition refreshGraphFromBackend ::
  "(string \<Rightarrow> string list) \<Rightarrow> files_response \<Rightarrow> state \<Rightarrow> state" where
  "refreshGraphFromBackend parseRefs resp s =
     snd (loadAndPushGraph parseRefs resp (s\<lparr>lastFileFingerprint := []\<rparr>))"

section \<open>Reachable states\<close>

text \<open>
  The module starts in \<open>initialState\<close>; the host registers and removes the subscriber,
  calls the exposed operations, the poll timer runs poll cycles and pending timeouts
  expire. Each operation runs to its end before the next one starts. A position save
  counts where it ends with a graph.
\<close>

inductive reachable :: "state \<Rightarrow> bool" where
  r_init: "reachable (initialState vp port)"
| r_subscribe: "reachable s \<Longrightarrow> reachable (s\<lparr>graphUpdateCallback := True\<rparr>)"
| r_unsubscribe: "reachable s \<Longrightarrow> reachable (s\<lparr>graphUpdateCallback := False\<rparr>)"
| r_edit: "reachable s \<Longrightarrow> reachable (applyGraphDelta toMd net delta s)"
| r_save: "reachable s \<Longrightarrow> saveNodePositions cyNodes s = Inr s' \<Longrightarrow> reachable s'"
| r_undo: "reachable s \<Longrightarrow> reachable (performUndo s)"
| r_redo: "reachable s \<Longrightarrow> reachable (performRedo s)"
| r_poll: "reachable s \<Longrightarrow> reachable (snd (loadAndPushGraph parseRefs resp s))"
| r_timeout: "reachable s \<Longrightarrow> reachable (fireTimeout s)"

section \<open>Auxiliary notions for the statements\<close>

text \<open>The request that one operation of a delta stands for.\<close>

definition requestOf :: "(node \<Rightarrow> string) \<Rightarrow> node_delta \<Rightarrow> effect" where
  "requestOf toMd d =
     (case d of
        UpsertNode n \<Rightarrow> FetchWriteNode (mdPath (absoluteFilePathIsID n)) (toMd n)
      | DeleteNode k \<Rightarrow> FetchDeleteNode (mdPath k))"

text \<open>
  The invariant of the two history stacks: they are empty as long as no graph has been
  adopted, and together they never hold more than \<open>MAX_UNDO\<close> snapshots.
\<close>

definition historyInv :: "state \<Rightarrow> bool" where
  "historyInv s =
     ((currentGraph s = None \<longrightarrow> undoStack s = [] \<and> redoStack s = [])
      \<and> length (undoStack s) + length (redoStack s) \<le> MAX_UNDO)"

text \<open>The graph after one entry of a position save, the old one where the loop ends.\<close>

definition graphAfterEntry :: "graph \<Rightarrow> cy_node \<Rightarrow> graph" where
  "graphAfterEntry g c = (case savePositionStep g c of Inl stop \<Rightarrow> g | Inr g' \<Rightarrow> g')"

text \<open>
  An entry on which the loop ends: it has a position, its id is no key of the graph and is
  a name of \<^verbatim>\<open>Object.prototype\<close>.
\<close>

definition readsPrototype :: "graph \<Rightarrow> cy_node \<Rightarrow> bool" where
  "readsPrototype g c =
     (cy_position c \<noteq> None \<and> lookupNode g (cy_id c) = None
      \<and> cy_id c \<in> set objectPrototypeNames)"

text \<open>The requests that a poll cycle sends before it looks at the listing.\<close>

definition pollFetches :: "state \<Rightarrow> effect list" where
  "pollFetches s =
     (if currentGraph s = None \<and> vscodePath s \<noteq> [] then [FetchLoadDirectory] else [])
     @ [FetchFiles]"

text \<open>
  A rebuilt node after the merge with what the previous graph holds under its id: the
  previous position if there is one, everything else from the rebuilt node.
\<close>

definition mergedNode :: "node option \<Rightarrow> node \<Rightarrow> node" where
  "mergedNode prevNode n =
     (case prevNode of
        None \<Rightarrow> n
      | Some pn \<Rightarrow>
          (case position (nodeUIMetadata pn) of
             None \<Rightarrow> n
           | Some p \<Rightarrow> n\<lparr>nodeUIMetadata := (nodeUIMetadata n)\<lparr>position := Some p\<rparr>\<rparr>))"

text \<open>The graph has an edge from \<open>src\<close> to \<open>tgt\<close>.\<close>

definition hasEdge :: "graph \<Rightarrow> string \<Rightarrow> string \<Rightarrow> bool" where
  "hasEdge g src tgt =
     (case lookupNode g src of None \<Rightarrow> False | Some n \<Rightarrow> tgt \<in> set (outgoingEdges n))"

text \<open>
  Modelled from the spec: the reference parser is not among the sources. For the example
  scenario, a reference is written \<^verbatim>\<open>[[name]]\<close> and names the node \<^verbatim>\<open>/name.md\<close>.
\<close>

fun scanLinks :: "string \<Rightarrow> string option \<Rightarrow> string list" where
  "scanLinks (c # d # cs) None =
     (if c = CHR ''['' \<and> d = CHR ''['' then scanLinks cs (Some [])
      else scanLinks (d # cs) None)"
| "scanLinks (c # d # cs) (Some acc) =
     (if c = CHR '']'' \<and> d = CHR '']'' then acc # scanLinks cs None
      else scanLinks (d # cs) (Some (acc @ [c])))"
| "scanLinks cs cur = []"

definition wikiRefs :: "string \<Rightarrow> string list" where
  "wikiRefs c = map (\<lambda>name. ''/'' @ name @ ''.md'') (scanLinks c None)"

text \<open>
  The node that the rebuild loop stores for a file, given the graph built so far (with the
  builder as modelled above).
\<close>

definition nodeOfFile :: "(string \<Rightarrow> string list) \<Rightarrow> graph \<Rightarrow> file_entry \<Rightarrow> node" where
  "nodeOfFile parseRefs g f =
     \<lparr>absoluteFilePathIsID = path f, content = file_content f,
      outgoingEdges = filter (\<lambda>t. t \<in> set (nodeIds g)) (parseRefs (file_content f)),
      nodeUIMetadata = \<lparr>position = None\<rparr>\<rparr>"

text \<open>
  Concrete values for the examples: two nodes, the graph holding both, and the states that
  the module reaches when a subscriber registers and the nodes are added by local edits
  (the backend rejects the second write; the content of a node stands for its markdown).
\<close>

abbreviation ex_nodeA :: node where
  "ex_nodeA \<equiv> \<lparr>absoluteFilePathIsID = ''/a.md'', content = ''# A'', outgoingEdges = [],
               nodeUIMetadata = \<lparr>position = Some \<lparr>x = 10, y = 20\<rparr>\<rparr>\<rparr>"

abbreviation ex_nodeB :: node where
  "ex_nodeB \<equiv> \<lparr>absoluteFilePathIsID = ''/b.md'', content = ''# B'', outgoingEdges = [''/a.md''],
               nodeUIMetadata = \<lparr>position = None\<rparr>\<rparr>"

abbreviation ex_graphA :: graph where
  "ex_graphA \<equiv> \<lparr>nodes = [(''/a.md'', ex_nodeA)]\<rparr>"

abbreviation ex_graphAB :: graph where
  "ex_graphAB \<equiv> \<lparr>nodes = [(''/a.md'', ex_nodeA), (''/b.md'', ex_nodeB)]\<rparr>"

definition ex_subscribed :: state where
  "ex_subscribed = (initialState ''/w'' (Some 8001))\<lparr>graphUpdateCallback := True\<rparr>"

definition ex_afterA :: state where
  "ex_afterA = applyGraphDelta content (\<lambda>i. FetchOk) [UpsertNode ex_nodeA] ex_subscribed"

definition ex_afterAB :: state where
  "ex_afterAB = applyGraphDelta content (\<lambda>i. FetchThrows) [UpsertNode ex_nodeB] ex_afterA"

text \<open>
  The two files of the example scenario, and the state after a first poll cycle over them.
\<close>

abbreviation ex_fileA :: file_entry where
  "ex_fileA \<equiv> \<lparr>path = ''/a.md'', file_content = ''# A''\<rparr>"

abbreviation ex_fileB :: file_entry where
  "ex_fileB \<equiv> \<lparr>path = ''/b.md'', file_content = ''# B'' @ [CHR 0x0A] @ ''[[a]]''\<rparr>"

definition ex_polled :: state where
  "ex_polled = snd (loadAndPushGraph wikiRefs (FilesOk [ex_fileA, ex_fileB]) ex_subscribed)"

section \<open>The example states, evaluated\<close>

lemma portSet_upd [simp]:
  "portSet (s\<lparr>effects := es\<rparr>) = portSet s"
  "portSet (s\<lparr>lastFileFingerprint := fp\<rparr>) = portSet s"
  "portSet (s\<lparr>currentGraph := g\<rparr>) = portSet s"
  by (simp_all add: portSet_def)

lemmas edit_defs =
  applyGraphDelta_def saveUndoState_def notifyUI_def backendWriteNode_def backendDeleteNode_def
  portSet_def mdPath_def endsWith_def applyGraphDeltaToGraph_def getCurrentGraph_def
  emptyGraph_def structuredClone_def MAX_UNDO_def Let_def

lemma ex_subscribed_eval:
  "ex_subscribed =
     \<lparr>vscodePath = ''/w'', currentGraph = None, graphUpdateCallback = True,
      backendPort = Some 8001, lastFileFingerprint = [], undoStack = [], redoStack = [],
      suppressPolling = False, timeouts = [], effects = []\<rparr>"
  by (simp add: ex_subscribed_def initialState_def)

lemma ex_afterA_eval:
  "ex_afterA =
     \<lparr>vscodePath = ''/w'', currentGraph = Some ex_graphA, graphUpdateCallback = True,
      backendPort = Some 8001, lastFileFingerprint = [], undoStack = [], redoStack = [],
      suppressPolling = False, timeouts = [],
      effects = [FetchWriteNode ''/a.md'' ''# A'', UICallback [UpsertNode ex_nodeA]]\<rparr>"
  by (simp add: ex_afterA_def ex_subscribed_eval edit_defs)

lemma ex_afterAB_eval:
  "ex_afterAB =
     \<lparr>vscodePath = ''/w'', currentGraph = Some ex_graphAB, graphUpdateCallback = True,
      backendPort = Some 8001, lastFileFingerprint = [], undoStack = [ex_graphA],
      redoStack = [], suppressPolling = False, timeouts = [],
      effects = [FetchWriteNode ''/a.md'' ''# A'', UICallback [UpsertNode ex_nodeA],
                 FetchWriteNode ''/b.md'' ''# B'', UICallback [UpsertNode ex_nodeB]]\<rparr>"
  by (simp add: ex_afterAB_def ex_afterA_eval edit_defs)

lemmas undo_defs =
  performUndo_def performRedo_def pushFullGraphToUI_def mapNewGraphToDelta_def nodeIds_def
  structuredClone_def getCurrentGraph_def fireTimeout_def Let_def

lemma ex_undo_eval:
  "performUndo ex_afterAB =
     ex_afterAB
       \<lparr>suppressPolling := True, undoStack := [], redoStack := [ex_graphAB],
        currentGraph := Some ex_graphA,
        effects := effects ex_afterAB @ [UICallback [DeleteNode ''/b.md'', UpsertNode ex_nodeA]],
        timeouts := [(5000, ClearSuppressPolling)]\<rparr>"
  by (simp add: ex_afterAB_eval undo_defs)

lemmas poll_defs =
  loadAndPushGraph_def refreshGraphFromBackend_def fingerprintOf_def fingerprintEntry_def
  showNat.simps digitChar_def addNodeToGraphWithEdgeHealingFromFSEvent_def
  applyGraphDeltaToGraph_def createEmptyGraph_def emptyGraph_def nodeIds_def wikiRefs_def
  preservePositions_def preserveStep_def notifyUI_def portSet_def getCurrentGraph_def
  lookupNode_def hasEdge_def Let_def

lemma ex_poll_AB:
  "loadAndPushGraph wikiRefs (FilesOk [ex_fileA, ex_fileB]) ex_subscribed =
     (True, ex_subscribed
        \<lparr>effects := [FetchLoadDirectory, FetchFiles,
            UICallback
              [UpsertNode \<lparr>absoluteFilePathIsID = ''/a.md'', content = ''# A'', outgoingEdges = [],
                           nodeUIMetadata = \<lparr>position = None\<rparr>\<rparr>,
               UpsertNode \<lparr>absoluteFilePathIsID = ''/b.md'',
                           content = ''# B'' @ [CHR 0x0A] @ ''[[a]]'',
                           outgoingEdges = [''/a.md''],
                           nodeUIMetadata = \<lparr>position = None\<rparr>\<rparr>]],
          lastFileFingerprint := ''/a.md:3:# A|/b.md:9:# B'' @ [CHR 0x0A] @ ''[[a]]'',
          currentGraph := Some
            \<lparr>nodes =
               [(''/a.md'', \<lparr>absoluteFilePathIsID = ''/a.md'', content = ''# A'',
                            outgoingEdges = [], nodeUIMetadata = \<lparr>position = None\<rparr>\<rparr>),
                (''/b.md'', \<lparr>absoluteFilePathIsID = ''/b.md'',
                            content = ''# B'' @ [CHR 0x0A] @ ''[[a]]'',
                            outgoingEdges = [''/a.md''],
                            nodeUIMetadata = \<lparr>position = None\<rparr>\<rparr>)]\<rparr>\<rparr>)"
  by (simp add: ex_subscribed_eval poll_defs)

lemma ex_poll_BA:
  "loadAndPushGraph wikiRefs (FilesOk [ex_fileB, ex_fileA]) ex_subscribed =
     (True, ex_subscribed
        \<lparr>effects := [FetchLoadDirectory, FetchFiles,
            UICallback
              [UpsertNode \<lparr>absoluteFilePathIsID = ''/b.md'',
                           content = ''# B'' @ [CHR 0x0A] @ ''[[a]]'',
                           outgoingEdges = [],
                           nodeUIMetadata = \<lparr>position = None\<rparr>\<rparr>,
               UpsertNode \<lparr>absoluteFilePathIsID = ''/a.md'', content = ''# A'', outgoingEdges = [],
                           nodeUIMetadata = \<lparr>position = None\<rparr>\<rparr>]],
          lastFileFingerprint := ''/b.md:9:# B'' @ [CHR 0x0A] @ ''[[a]]|/a.md:3:# A'',
          currentGraph := Some
            \<lparr>nodes =
               [(''/b.md'', \<lparr>absoluteFilePathIsID = ''/b.md'',
                            content = ''# B'' @ [CHR 0x0A] @ ''[[a]]'',
                            outgoingEdges = [],
                            nodeUIMetadata = \<lparr>position = None\<rparr>\<rparr>),
                (''/a.md'', \<lparr>absoluteFilePathIsID = ''/a.md'', content = ''# A'',
                            outgoingEdges = [], nodeUIMetadata = \<lparr>position = None\<rparr>\<rparr>)]\<rparr>\<rparr>)"
  by (simp add: ex_subscribed_eval poll_defs)

lemma ex_polled_eval:
  "ex_polled =
     \<lparr>vscodePath = ''/w'',
      currentGraph = Some
        \<lparr>nodes =
           [(''/a.md'', \<lparr>absoluteFilePathIsID = ''/a.md'', content = ''# A'',
                        outgoingEdges = [], nodeUIMetadata = \<lparr>position = None\<rparr>\<rparr>),
            (''/b.md'', \<lparr>absoluteFilePathIsID = ''/b.md'',
                        content = ''# B'' @ [CHR 0x0A] @ ''[[a]]'',
                        outgoingEdges = [''/a.md''],
                        nodeUIMetadata = \<lparr>position = None\<rparr>\<rparr>)]\<rparr>,
      graphUpdateCallback = True, backendPort = Some 8001,
      lastFileFingerprint = ''/a.md:3:# A|/b.md:9:# B'' @ [CHR 0x0A] @ ''[[a]]'',
      undoStack = [], redoStack = [], suppressPolling = False, timeouts = [],
      effects = [FetchLoadDirectory, FetchFiles,
            UICallback
              [UpsertNode \<lparr>absoluteFilePathIsID = ''/a.md'', content = ''# A'', outgoingEdges = [],
                           nodeUIMetadata = \<lparr>position = None\<rparr>\<rparr>,
               UpsertNode \<lparr>absoluteFilePathIsID = ''/b.md'',
                           content = ''# B'' @ [CHR 0x0A] @ ''[[a]]'',
                           outgoingEdges = [''/a.md''],
                           nodeUIMetadata = \<lparr>position = None\<rparr>\<rparr>]]\<rparr>"
  by (simp add: ex_polled_def ex_subscribed_eval poll_defs)

section \<open>Saving positions touches positions only\<close>

lemma savePositionStep_Inr:
  "\<not> readsPrototype g c \<Longrightarrow> savePositionStep g c = Inr (graphAfterEntry g c)"
  by (auto simp: savePositionStep_def graphAfterEntry_def readsPrototype_def lookupNode_def
      split: option.splits)

lemma savePositionStep_Inl:
  "readsPrototype g c \<Longrightarrow> \<exists>stop. savePositionStep g c = Inl stop"
  by (auto simp: savePositionStep_def readsPrototype_def lookupNode_def split: option.splits)

lemma graphAfterEntry_ids: "nodeIds (graphAfterEntry g c) = nodeIds g"
  by (auto simp: graphAfterEntry_def savePositionStep_def nodeIds_def update_keys
      map_of_eq_None_iff[symmetric] split: option.splits)

lemma graphAfterEntry_lookup:
  "lookupNode (graphAfterEntry g c) k =
     (case (cy_position c, lookupNode g (cy_id c)) of
        (Some pos, Some n) \<Rightarrow>
          if k = cy_id c then Some (n\<lparr>nodeUIMetadata := (nodeUIMetadata n)\<lparr>position := Some pos\<rparr>\<rparr>)
          else lookupNode g k
      | _ \<Rightarrow> lookupNode g k)"
  by (auto simp: graphAfterEntry_def savePositionStep_def lookupNode_def update_conv'
      split: option.splits)

lemma graphAfterEntry_dom:
  "(lookupNode (graphAfterEntry g c) k = None) = (lookupNode g k = None)"
  by (auto simp: graphAfterEntry_lookup split: option.splits)

lemma readsPrototype_graphAfterEntry:
  "readsPrototype (graphAfterEntry g c) c' = readsPrototype g c'"
  by (simp add: readsPrototype_def graphAfterEntry_dom)

lemma readsPrototype_foldl:
  "readsPrototype (foldl graphAfterEntry g cs) c' = readsPrototype g c'"
  by (induction cs arbitrary: g) (simp_all add: readsPrototype_graphAfterEntry)

lemma savePositionLoop_Inr:
  "\<forall>c \<in> set batch. \<not> readsPrototype g c \<Longrightarrow>
   savePositionLoop g batch = Inr (foldl graphAfterEntry g batch)"
proof (induction batch arbitrary: g)
  case Nil
  show ?case by simp
next
  case (Cons c cs)
  have "\<forall>c' \<in> set cs. \<not> readsPrototype (graphAfterEntry g c) c'"
    using Cons.prems by (simp add: readsPrototype_graphAfterEntry)
  then show ?case
    using Cons.IH[of "graphAfterEntry g c"] Cons.prems
    by (simp add: savePositionStep_Inr)
qed

lemma savePositionLoop_Inl:
  "\<exists>c \<in> set batch. readsPrototype g c \<Longrightarrow> \<exists>stop. savePositionLoop g batch = Inl stop"
proof (induction batch arbitrary: g)
  case Nil
  then show ?case by simp
next
  case (Cons c cs)
  show ?case
  proof (cases "readsPrototype g c")
    case True
    then show ?thesis using savePositionStep_Inl[of g c] by auto
  next
    case False
    then have "\<exists>c' \<in> set cs. readsPrototype (graphAfterEntry g c) c'"
      using Cons.prems by (auto simp: readsPrototype_graphAfterEntry)
    then show ?thesis
      using Cons.IH[of "graphAfterEntry g c"] False by (simp add: savePositionStep_Inr)
  qed
qed

lemma foldl_graphAfterEntry_ids: "nodeIds (foldl graphAfterEntry g batch) = nodeIds g"
  by (induction batch rule: rev_induct) (simp_all add: graphAfterEntry_ids)

lemma foldl_graphAfterEntry_lookup:
  assumes "lookupNode g k = Some n"
  shows "lookupNode (foldl graphAfterEntry g batch) k =
     Some (n\<lparr>nodeUIMetadata := (nodeUIMetadata n)\<lparr>position :=
        (case filter (\<lambda>c. cy_id c = k \<and> cy_position c \<noteq> None) batch of
           [] \<Rightarrow> position (nodeUIMetadata n)
         | c # cs \<Rightarrow> cy_position (last (c # cs)))\<rparr>\<rparr>)"
proof (induction batch rule: rev_induct)
  case Nil
  show ?case using assms by simp
next
  case (snoc c batch)
  show ?case
    using snoc
    by (auto simp: graphAfterEntry_lookup split: option.splits list.splits)
qed

lemma foldl_graphAfterEntry_absent:
  "lookupNode g k = None \<Longrightarrow> lookupNode (foldl graphAfterEntry g batch) k = None"
  by (induction batch rule: rev_induct) (auto simp: graphAfterEntry_lookup split: option.splits)

lemma graphAfterEntry_skip:
  "cy_position c = None \<or> lookupNode g (cy_id c) = None \<Longrightarrow> graphAfterEntry g c = g"
  by (auto simp: graphAfterEntry_def savePositionStep_def lookupNode_def split: option.splits)

lemma foldl_graphAfterEntry_filter:
  "foldl graphAfterEntry g batch =
   foldl graphAfterEntry g
     (filter (\<lambda>c. cy_position c \<noteq> None \<and> lookupNode g (cy_id c) \<noteq> None) batch)"
proof (induction batch arbitrary: g)
  case Nil
  show ?case by simp
next
  case (Cons c batch)
  show ?case
  proof (cases "cy_position c = None \<or> lookupNode g (cy_id c) = None")
    case True
    then show ?thesis using Cons[of g] by (auto simp: graphAfterEntry_skip)
  next
    case False
    then show ?thesis using Cons[of "graphAfterEntry g c"]
      by (simp add: graphAfterEntry_dom)
  qed
qed

lemma saveNodePositions_graph_only:
  "saveNodePositions batch s = Inr s' \<Longrightarrow> \<exists>g. s' = s\<lparr>currentGraph := g\<rparr> \<and> (g = None) = (currentGraph s = None)"
  by (auto simp: saveNodePositions_def split: option.splits sum.splits)

text \<open>
  Away from the names of \<^verbatim>\<open>Object.prototype\<close>, saving positions changes nothing but
  positions: when no entry of the batch reads the prototype, the result is the state with a
  new current graph; entries without a position or with an id that the graph does not hold
  can be left out of the batch; the graph keeps its ids; a node named by applied entries
  is the old node with the position of the last such entry; a node that no entry names is
  unchanged.
\<close>

lemma saveNodePositions_frame:
  assumes "currentGraph s = Some g" and "\<forall>c \<in> set batch. \<not> readsPrototype g c"
  shows "saveNodePositions batch s = Inr (s\<lparr>currentGraph := Some (foldl graphAfterEntry g batch)\<rparr>)
       \<and> saveNodePositions batch s =
           saveNodePositions
             (filter (\<lambda>c. cy_position c \<noteq> None \<and> lookupNode g (cy_id c) \<noteq> None) batch) s
       \<and> nodeIds (foldl graphAfterEntry g batch) = nodeIds g
       \<and> (lookupNode g k = None \<longrightarrow> lookupNode (foldl graphAfterEntry g batch) k = None)
       \<and> (lookupNode g k = Some n \<longrightarrow>
            lookupNode (foldl graphAfterEntry g batch) k =
              Some (n\<lparr>nodeUIMetadata := (nodeUIMetadata n)\<lparr>position :=
                (case filter (\<lambda>c. cy_id c = k \<and> cy_position c \<noteq> None) batch of
                   [] \<Rightarrow> position (nodeUIMetadata n)
                 | c # cs \<Rightarrow> cy_position (last (c # cs)))\<rparr>\<rparr>))
       \<and> (lookupNode g k = Some n \<and> k \<notin> cy_id ` set batch \<longrightarrow>
            lookupNode (foldl graphAfterEntry g batch) k = Some n)"
proof -
  have a: "saveNodePositions batch s = Inr (s\<lparr>currentGraph := Some (foldl graphAfterEntry g batch)\<rparr>)"
    using assms by (simp add: saveNodePositions_def savePositionLoop_Inr)
  have f: "\<forall>c \<in> set (filter (\<lambda>c. cy_position c \<noteq> None \<and> lookupNode g (cy_id c) \<noteq> None) batch).
             \<not> readsPrototype g c"
    using assms(2) by simp
  have b: "saveNodePositions batch s =
           saveNodePositions
             (filter (\<lambda>c. cy_position c \<noteq> None \<and> lookupNode g (cy_id c) \<noteq> None) batch) s"
  proof -
    have c: "savePositionLoop g
               (filter (\<lambda>c. cy_position c \<noteq> None \<and> lookupNode g (cy_id c) \<noteq> None) batch) =
             Inr (foldl graphAfterEntry g
               (filter (\<lambda>c. cy_position c \<noteq> None \<and> lookupNode g (cy_id c) \<noteq> None) batch))"
      by (rule savePositionLoop_Inr[OF f])
    have b': "saveNodePositions
               (filter (\<lambda>c. cy_position c \<noteq> None \<and> lookupNode g (cy_id c) \<noteq> None) batch) s =
             Inr (s\<lparr>currentGraph := Some (foldl graphAfterEntry g
               (filter (\<lambda>c. cy_position c \<noteq> None \<and> lookupNode g (cy_id c) \<noteq> None) batch))\<rparr>)"
      using c by (simp add: saveNodePositions_def assms(1))
    show ?thesis
      unfolding a b' using foldl_graphAfterEntry_filter[of g batch] by simp
  qed
  have e: "lookupNode g k = Some n \<Longrightarrow> k \<notin> cy_id ` set batch \<Longrightarrow>
           filter (\<lambda>c. cy_id c = k \<and> cy_position c \<noteq> None) batch = []"
    by (auto simp: filter_empty_conv)
  show ?thesis
    using a b e
    by (auto simp: foldl_graphAfterEntry_ids foldl_graphAfterEntry_absent
        foldl_graphAfterEntry_lookup)
qed

text \<open>
  Claim C10, at the inputs where the code departs from it. The graph of the example has no
  node \<^verbatim>\<open>constructor\<close>, yet an entry with that id and a position is not ignored: the
  test of the loop reads the inherited property, and the loop stores an object that is not
  a node under that id. For \<^verbatim>\<open>__proto__\<close> it replaces the prototype. An unknown id
  that is no such name is ignored, as the empty batch shows the state unchanged.
\<close>

theorem saveNodePositions_reads_prototype:
  "lookupNode ex_graphAB ''constructor'' = None
   \<and> saveNodePositions [\<lparr>cy_id = ''constructor'', cy_position = Some \<lparr>x = 1, y = 1\<rparr>\<rparr>] ex_afterAB
       = Inl (NonNodeStored ''constructor'' \<lparr>x = 1, y = 1\<rparr>)
   \<and> saveNodePositions [\<lparr>cy_id = ''__proto__'', cy_position = Some \<lparr>x = 1, y = 1\<rparr>\<rparr>] ex_afterAB
       = Inl (PrototypeReplaced \<lparr>x = 1, y = 1\<rparr>)
   \<and> saveNodePositions [\<lparr>cy_id = ''/zz.md'', cy_position = Some \<lparr>x = 1, y = 1\<rparr>\<rparr>] ex_afterAB
       = Inr ex_afterAB
   \<and> saveNodePositions [] ex_afterAB = Inr ex_afterAB"
  by (simp add: ex_afterAB_eval saveNodePositions_def savePositionStep_def lookupNode_def
      objectPrototypeNames_def)

section \<open>The operations in closed form\<close>

lemma persistOp_eq:
  "persistOp toMd r d s =
     (if portSet s then s\<lparr>effects := effects s @ [requestOf toMd d]\<rparr> else s)"
  by (cases d) (simp_all add: backendWriteNode_def backendDeleteNode_def requestOf_def)

lemma persistDelta_eq:
  "persistDelta toMd net delta s =
     (if portSet s then s\<lparr>effects := effects s @ map (requestOf toMd) delta\<rparr> else s)"
proof (induction delta arbitrary: s net)
  case Nil
  show ?case by simp
next
  case (Cons d ds)
  show ?case by (simp add: Cons persistOp_eq)
qed

lemma applyGraphDelta_eq:
  assumes "delta \<noteq> []"
  shows "applyGraphDelta toMd net delta s =
     (saveUndoState s)
       \<lparr>currentGraph := Some (applyGraphDeltaToGraph (getCurrentGraph s) delta),
        effects := effects s @ (if portSet s then map (requestOf toMd) delta else [])
                     @ (if graphUpdateCallback s then [UICallback delta] else []),
        lastFileFingerprint := []\<rparr>"
  using assms
  by (cases "currentGraph s")
     (simp_all add: applyGraphDelta_def saveUndoState_def notifyUI_def persistDelta_eq
       Let_def getCurrentGraph_def portSet_def)

lemma performUndo_eq:
  assumes "undoStack s \<noteq> []" "currentGraph s = Some g"
  shows "performUndo s =
     s\<lparr>suppressPolling := True,
       undoStack := butlast (undoStack s),
       redoStack := redoStack s @ [g],
       currentGraph := Some (last (undoStack s)),
       effects := effects s @
         (if graphUpdateCallback s
          then [UICallback (map DeleteNode
                   (filter (\<lambda>k. k \<notin> set (nodeIds (last (undoStack s)))) (nodeIds g))
                 @ mapNewGraphToDelta (last (undoStack s)))]
          else []),
       lastFileFingerprint := (if graphUpdateCallback s then [] else lastFileFingerprint s),
       timeouts := timeouts s @ [(5000, ClearSuppressPolling)]\<rparr>"
  using assms
  by (simp add: performUndo_def pushFullGraphToUI_def Let_def structuredClone_def)

lemma performRedo_eq:
  assumes "redoStack s \<noteq> []" "currentGraph s = Some g"
  shows "performRedo s =
     s\<lparr>suppressPolling := True,
       redoStack := butlast (redoStack s),
       undoStack := undoStack s @ [g],
       currentGraph := Some (last (redoStack s)),
       effects := effects s @
         (if graphUpdateCallback s
          then [UICallback (map DeleteNode
                   (filter (\<lambda>k. k \<notin> set (nodeIds (last (redoStack s)))) (nodeIds g))
                 @ mapNewGraphToDelta (last (redoStack s)))]
          else []),
       lastFileFingerprint := (if graphUpdateCallback s then [] else lastFileFingerprint s),
       timeouts := timeouts s @ [(5000, ClearSuppressPolling)]\<rparr>"
  using assms
  by (simp add: performRedo_def pushFullGraphToUI_def Let_def structuredClone_def)

section \<open>The invariant of the history stacks\<close>

lemma historyInv_init: "historyInv (initialState vp port)"
  by (simp add: historyInv_def initialState_def)

lemma historyInv_edit: "historyInv s \<Longrightarrow> historyInv (applyGraphDelta toMd net delta s)"
  by (auto simp: historyInv_def applyGraphDelta_def saveUndoState_def notifyUI_def
      persistDelta_eq Let_def MAX_UNDO_def split: option.splits)

lemma historyInv_save:
  "historyInv s \<Longrightarrow> saveNodePositions batch s = Inr s' \<Longrightarrow> historyInv s'"
  by (auto simp: historyInv_def saveNodePositions_def split: option.splits sum.splits)

lemma historyInv_undo: "historyInv s \<Longrightarrow> historyInv (performUndo s)"
  by (cases "undoStack s" rule: rev_cases)
     (auto simp: historyInv_def performUndo_def pushFullGraphToUI_def Let_def
      split: option.splits)

lemma historyInv_redo: "historyInv s \<Longrightarrow> historyInv (performRedo s)"
  by (cases "redoStack s" rule: rev_cases)
     (auto simp: historyInv_def performRedo_def pushFullGraphToUI_def Let_def
      split: option.splits)

lemma historyInv_poll: "historyInv s \<Longrightarrow> historyInv (snd (loadAndPushGraph parseRefs resp s))"
  by (auto simp: historyInv_def loadAndPushGraph_def notifyUI_def Let_def
      split: option.splits files_response.splits)

lemma historyInv_timeout: "historyInv s \<Longrightarrow> historyInv (fireTimeout s)"
  by (cases "timeouts s"; cases "snd (hd (timeouts s))")
     (auto simp: historyInv_def fireTimeout_def split: list.splits)

lemma reachable_historyInv: "reachable s \<Longrightarrow> historyInv s"
proof (induction rule: reachable.induct)
  case (r_init vp port)
  show ?case by (rule historyInv_init)
next
  case (r_subscribe s)
  then show ?case by (simp add: historyInv_def)
next
  case (r_unsubscribe s)
  then show ?case by (simp add: historyInv_def)
next
  case (r_edit s toMd net delta)
  then show ?case by (simp add: historyInv_edit)
next
  case (r_save s cyNodes s')
  then show ?case by (blast intro: historyInv_save)
next
  case (r_undo s)
  then show ?case by (simp add: historyInv_undo)
next
  case (r_redo s)
  then show ?case by (simp add: historyInv_redo)
next
  case (r_poll s parseRefs resp)
  then show ?case by (simp add: historyInv_poll)
next
  case (r_timeout s)
  then show ?case by (simp add: historyInv_timeout)
qed

lemma reachable_ex_subscribed: "reachable ex_subscribed"
  unfolding ex_subscribed_def by (intro r_subscribe r_init)

lemma reachable_ex_afterAB: "reachable ex_afterAB"
  unfolding ex_afterAB_def ex_afterA_def by (intro r_edit reachable_ex_subscribed)

lemma reachable_ex_polled: "reachable ex_polled"
  unfolding ex_polled_def by (intro r_poll reachable_ex_subscribed)

lemma reachable_ex_unsubscribed: "reachable (ex_afterAB\<lparr>graphUpdateCallback := False\<rparr>)"
  by (intro r_unsubscribe reachable_ex_afterAB)

lemma reachable_edits:
  "reachable s \<Longrightarrow> reachable ((applyGraphDelta toMd net delta ^^ n) s)"
  by (induction n) (simp_all add: r_edit)

lemma edit_undo_length:
  assumes "delta \<noteq> []" "currentGraph s \<noteq> None" "length (undoStack s) \<le> 30"
  shows "length (undoStack (applyGraphDelta toMd net delta s)) = min (Suc (length (undoStack s))) 30
       \<and> currentGraph (applyGraphDelta toMd net delta s) \<noteq> None"
  using assms
  by (auto simp: applyGraphDelta_eq saveUndoState_def Let_def MAX_UNDO_def)

lemma edits_undo_length:
  assumes "delta \<noteq> []" "currentGraph s \<noteq> None" "length (undoStack s) \<le> 30"
  shows "length (undoStack ((applyGraphDelta toMd net delta ^^ n) s)) = min (length (undoStack s) + n) 30
       \<and> currentGraph ((applyGraphDelta toMd net delta ^^ n) s) \<noteq> None"
proof (induction n)
  case 0
  show ?case using assms by simp
next
  case (Suc n)
  have "length (undoStack ((applyGraphDelta toMd net delta ^^ n) s)) \<le> 30"
    using Suc by simp
  from edit_undo_length[OF assms(1) _ this, of toMd net] Suc
  show ?case by auto
qed

section \<open>Undo, redo and local edits\<close>

text \<open>
  Claim C8. In every reachable state the undo stack and the redo stack hold at most 30
  snapshots each, and a local edit made when the undo stack is full drops its oldest
  snapshot and appends the graph that was current.
\<close>

theorem history_stacks_bounded:
  assumes "reachable s"
  shows "length (undoStack s) \<le> 30 \<and> length (redoStack s) \<le> 30
       \<and> (delta \<noteq> [] \<and> length (undoStack s) = 30 \<longrightarrow>
            undoStack (applyGraphDelta toMd net delta s) = tl (undoStack s) @ [getCurrentGraph s])"
proof -
  have inv: "historyInv s" using assms by (rule reachable_historyInv)
  have b: "length (undoStack s) \<le> 30 \<and> length (redoStack s) \<le> 30"
    using inv by (simp add: historyInv_def MAX_UNDO_def)
  have e: "undoStack (applyGraphDelta toMd net delta s) = tl (undoStack s) @ [getCurrentGraph s]"
    if d: "delta \<noteq> []" and l: "length (undoStack s) = 30"
  proof -
    have ne: "undoStack s \<noteq> []" using l by auto
    then obtain g where g: "currentGraph s = Some g"
      using inv by (auto simp: historyInv_def)
    show ?thesis
      using d l g ne
      by (simp add: applyGraphDelta_eq saveUndoState_def Let_def MAX_UNDO_def
          structuredClone_def getCurrentGraph_def)
  qed
  show ?thesis using b e by blast
qed

theorem history_stacks_bounded_witness:
  "reachable ((applyGraphDelta content (\<lambda>i. FetchOk) [UpsertNode ex_nodeA] ^^ 31) ex_afterAB)
   \<and> [DeleteNode ''/a.md''] \<noteq> []
   \<and> length (undoStack ((applyGraphDelta content (\<lambda>i. FetchOk) [UpsertNode ex_nodeA] ^^ 31)
        ex_afterAB)) = 30
   \<and> length (redoStack ((applyGraphDelta content (\<lambda>i. FetchOk) [UpsertNode ex_nodeA] ^^ 31)
        ex_afterAB)) \<le> 30
   \<and> undoStack (applyGraphDelta content (\<lambda>i. FetchOk) [DeleteNode ''/a.md'']
        ((applyGraphDelta content (\<lambda>i. FetchOk) [UpsertNode ex_nodeA] ^^ 31) ex_afterAB)) =
       tl (undoStack ((applyGraphDelta content (\<lambda>i. FetchOk) [UpsertNode ex_nodeA] ^^ 31)
             ex_afterAB))
       @ [getCurrentGraph ((applyGraphDelta content (\<lambda>i. FetchOk) [UpsertNode ex_nodeA] ^^ 31)
             ex_afterAB)]"
proof -
  have r: "reachable ((applyGraphDelta content (\<lambda>i. FetchOk) [UpsertNode ex_nodeA] ^^ 31)
      ex_afterAB)"
    by (rule reachable_edits [OF reachable_ex_afterAB])
  have c: "currentGraph ex_afterAB \<noteq> None" "length (undoStack ex_afterAB) = 1"
    by (simp_all add: ex_afterAB_eval)
  have l: "length (undoStack ((applyGraphDelta content (\<lambda>i. FetchOk) [UpsertNode ex_nodeA] ^^ 31)
      ex_afterAB)) = 30"
    using edits_undo_length [where delta = "[UpsertNode ex_nodeA]" and s = ex_afterAB
            and toMd = content and net = "\<lambda>i. FetchOk" and n = 31] c
    by simp
  show ?thesis
    using r l history_stacks_bounded [OF r, of "[DeleteNode ''/a.md'']" content "\<lambda>i. FetchOk"]
    by simp
qed

text \<open>
  Claim C2. In a reachable state with a non-empty undo stack, undo followed by redo gives
  back the current graph (and both stacks); undo with an empty undo stack and redo with an
  empty redo stack change nothing; a non-empty local edit leaves the redo stack empty, so
  that after undo and an edit, redo is a no-op.
\<close>

theorem undo_redo_round_trip:
  assumes "reachable s"
  shows "(undoStack s \<noteq> [] \<longrightarrow>
            currentGraph (performRedo (performUndo s)) = currentGraph s
          \<and> undoStack (performRedo (performUndo s)) = undoStack s
          \<and> redoStack (performRedo (performUndo s)) = redoStack s)
       \<and> (undoStack s = [] \<longrightarrow> performUndo s = s)
       \<and> (redoStack s = [] \<longrightarrow> performRedo s = s)
       \<and> (delta \<noteq> [] \<longrightarrow> redoStack (applyGraphDelta toMd net delta s) = [])
       \<and> (undoStack s \<noteq> [] \<and> delta \<noteq> [] \<longrightarrow>
            redoStack (applyGraphDelta toMd net delta (performUndo s)) = []
          \<and> performRedo (applyGraphDelta toMd net delta (performUndo s)) =
              applyGraphDelta toMd net delta (performUndo s))"
proof -
  have inv: "historyInv s" using assms by (rule reachable_historyInv)
  have rt: "currentGraph (performRedo (performUndo s)) = currentGraph s
          \<and> undoStack (performRedo (performUndo s)) = undoStack s
          \<and> redoStack (performRedo (performUndo s)) = redoStack s"
    if ne: "undoStack s \<noteq> []"
  proof -
    obtain g where g: "currentGraph s = Some g"
      using inv ne by (auto simp: historyInv_def)
    have u: "redoStack (performUndo s) \<noteq> []"
      "currentGraph (performUndo s) = Some (last (undoStack s))"
      by (simp_all add: performUndo_eq[OF ne g])
    show ?thesis
      unfolding performRedo_eq[OF u]
      using ne g by (simp add: performUndo_eq[OF ne g])
  qed
  have clr: "redoStack (applyGraphDelta toMd net delta t) = []"
    if "delta \<noteq> []" "historyInv t" for t
    using that
    by (cases "currentGraph t") (auto simp: applyGraphDelta_eq saveUndoState_def Let_def historyInv_def)
  have after: "redoStack (applyGraphDelta toMd net delta (performUndo s)) = []
          \<and> performRedo (applyGraphDelta toMd net delta (performUndo s)) =
              applyGraphDelta toMd net delta (performUndo s)"
    if "delta \<noteq> []"
  proof -
    have "historyInv (performUndo s)" using inv by (rule historyInv_undo)
    then have "redoStack (applyGraphDelta toMd net delta (performUndo s)) = []"
      using that clr by blast
    then show ?thesis by (simp add: performRedo_def)
  qed
  have nu: "performUndo s = s" if "undoStack s = []"
    using that by (simp add: performUndo_def)
  have nr: "performRedo s = s" if "redoStack s = []"
    using that by (simp add: performRedo_def)
  have c: "redoStack (applyGraphDelta toMd net delta s) = []" if "delta \<noteq> []"
    using that inv by (rule clr)
  show ?thesis
    using rt nu nr c after by blast
qed

theorem undo_redo_round_trip_witness:
  "reachable ex_afterAB \<and> undoStack ex_afterAB \<noteq> []
   \<and> currentGraph (performRedo (performUndo ex_afterAB)) = Some ex_graphAB
   \<and> reachable ex_subscribed \<and> redoStack ex_subscribed = [] \<and> undoStack ex_subscribed = []
   \<and> performUndo ex_subscribed = ex_subscribed \<and> performRedo ex_subscribed = ex_subscribed
   \<and> [DeleteNode ''/a.md''] \<noteq> []
   \<and> redoStack (performUndo ex_afterAB) \<noteq> []
   \<and> redoStack (applyGraphDelta content (\<lambda>i. FetchOk) [DeleteNode ''/a.md'']
        (performUndo ex_afterAB)) = []"
proof -
  show ?thesis
    using undo_redo_round_trip [OF reachable_ex_afterAB,
            of "[DeleteNode ''/a.md'']" content "\<lambda>i. FetchOk"]
      undo_redo_round_trip [OF reachable_ex_subscribed,
            of "[DeleteNode ''/a.md'']" content "\<lambda>i. FetchOk"]
      reachable_ex_afterAB reachable_ex_subscribed
    by (simp add: ex_undo_eval) (simp add: ex_afterAB_eval ex_subscribed_eval)
qed

text \<open>
  Claim C3. In a reachable state with a non-empty undo stack there is a current graph;
  \<^verbatim>\<open>performUndo\<close> pops the last snapshot, pushes the graph that was current onto the
  redo stack and adopts the snapshot. A registered subscriber receives one delta: a
  \<open>DeleteNode\<close> for every id of the graph that was current which the snapshot lacks,
  then an \<open>UpsertNode\<close> for every node of the snapshot. Without a subscriber nothing
  is sent.
\<close>

theorem performUndo_restores_and_reports:
  assumes "reachable s" and "undoStack s \<noteq> []"
  shows "currentGraph s = Some (getCurrentGraph s)
       \<and> undoStack (performUndo s) = butlast (undoStack s)
       \<and> redoStack (performUndo s) = redoStack s @ [getCurrentGraph s]
       \<and> currentGraph (performUndo s) = Some (last (undoStack s))
       \<and> (graphUpdateCallback s \<longrightarrow>
            effects (performUndo s) = effects s @
              [UICallback
                 (map DeleteNode
                    (filter (\<lambda>k. k \<notin> set (nodeIds (last (undoStack s))))
                       (nodeIds (getCurrentGraph s)))
                  @ map (\<lambda>kv. UpsertNode (snd kv)) (nodes (last (undoStack s))))])
       \<and> (\<not> graphUpdateCallback s \<longrightarrow> effects (performUndo s) = effects s)"
proof -
  have inv: "historyInv s" using assms(1) by (rule reachable_historyInv)
  obtain g where g: "currentGraph s = Some g"
    using inv assms(2) by (auto simp: historyInv_def)
  show ?thesis
    using g by (simp add: performUndo_eq[OF assms(2) g] getCurrentGraph_def mapNewGraphToDelta_def)
qed

theorem performUndo_restores_and_reports_witness:
  "reachable ex_afterAB \<and> undoStack ex_afterAB \<noteq> [] \<and> graphUpdateCallback ex_afterAB
   \<and> currentGraph ex_afterAB = Some ex_graphAB
   \<and> currentGraph (performUndo ex_afterAB) = Some ex_graphA
   \<and> redoStack (performUndo ex_afterAB) = [ex_graphAB]
   \<and> effects (performUndo ex_afterAB) =
       effects ex_afterAB @ [UICallback [DeleteNode ''/b.md'', UpsertNode ex_nodeA]]
   \<and> reachable (ex_afterAB\<lparr>graphUpdateCallback := False\<rparr>)
   \<and> undoStack (ex_afterAB\<lparr>graphUpdateCallback := False\<rparr>) \<noteq> []
   \<and> \<not> graphUpdateCallback (ex_afterAB\<lparr>graphUpdateCallback := False\<rparr>)
   \<and> effects (performUndo (ex_afterAB\<lparr>graphUpdateCallback := False\<rparr>)) = effects ex_afterAB"
proof -
  have ne: "undoStack ex_afterAB \<noteq> []"
    and ne': "undoStack (ex_afterAB\<lparr>graphUpdateCallback := False\<rparr>) \<noteq> []"
    by (simp_all add: ex_afterAB_eval)
  show ?thesis
    using performUndo_restores_and_reports [OF reachable_ex_afterAB ne]
      performUndo_restores_and_reports [OF reachable_ex_unsubscribed ne']
      reachable_ex_afterAB reachable_ex_unsubscribed
    by (simp add: ex_afterAB_eval nodeIds_def getCurrentGraph_def)
qed

text \<open>
  Claim C7, amended. For every non-empty delta and every state,
  \<^verbatim>\<open>applyGraphDelta\<close> pushes the current graph, if there is one, onto the undo stack
  (dropping the oldest snapshot beyond \<open>MAX_UNDO\<close>) and empties the redo stack; without a
  current graph both stacks stay as they are. In either case it then applies the delta to
  the current graph (to the empty graph if there is none), sends, when a backend port is
  set, one write request per \<open>UpsertNode\<close> and one delete request per \<open>DeleteNode\<close> in
  the order of the delta, then calls the subscriber, if one is registered, with the delta,
  and resets the fingerprint. What the backend does with the requests has no influence on
  the resulting state.
\<close>

theorem applyGraphDelta_flow:
  assumes "delta \<noteq> []"
  shows "applyGraphDelta toMd net delta s =
     s\<lparr>undoStack :=
         (case currentGraph s of
            None \<Rightarrow> undoStack s
          | Some g \<Rightarrow>
              if length (undoStack s) < MAX_UNDO then undoStack s @ [g]
              else tl (undoStack s @ [g])),
       redoStack := (case currentGraph s of None \<Rightarrow> redoStack s | Some g \<Rightarrow> []),
       currentGraph := Some (applyGraphDeltaToGraph (getCurrentGraph s) delta),
       effects := effects s
          @ (if portSet s then map (requestOf toMd) delta else [])
          @ (if graphUpdateCallback s then [UICallback delta] else []),
       lastFileFingerprint := []\<rparr>
     \<and> applyGraphDelta toMd net' delta s = applyGraphDelta toMd net delta s"
  using assms
  by (cases "currentGraph s")
     (auto simp: applyGraphDelta_eq saveUndoState_def Let_def structuredClone_def)

theorem applyGraphDelta_flow_witness:
  "[UpsertNode ex_nodeB] \<noteq> [] \<and> currentGraph ex_afterA = Some ex_graphA
   \<and> portSet ex_afterA \<and> graphUpdateCallback ex_afterA
   \<and> undoStack (applyGraphDelta content (\<lambda>i. FetchThrows) [UpsertNode ex_nodeB] ex_afterA)
       = [ex_graphA]
   \<and> currentGraph (applyGraphDelta content (\<lambda>i. FetchThrows) [UpsertNode ex_nodeB] ex_afterA)
       = Some ex_graphAB
   \<and> effects (applyGraphDelta content (\<lambda>i. FetchThrows) [UpsertNode ex_nodeB] ex_afterA) =
        effects ex_afterA @ [FetchWriteNode ''/b.md'' ''# B'', UICallback [UpsertNode ex_nodeB]]
   \<and> lastFileFingerprint (applyGraphDelta content (\<lambda>i. FetchThrows) [UpsertNode ex_nodeB] ex_afterA)
       = []
   \<and> applyGraphDelta content (\<lambda>i. FetchOk) [UpsertNode ex_nodeB] ex_afterA =
       applyGraphDelta content (\<lambda>i. FetchThrows) [UpsertNode ex_nodeB] ex_afterA
   \<and> [UpsertNode ex_nodeA] \<noteq> [] \<and> currentGraph (initialState ''/w'' (Some 8001)) = None
   \<and> applyGraphDelta content (\<lambda>i. FetchNotOk) [UpsertNode ex_nodeA] (initialState ''/w'' (Some 8001))
       = (initialState ''/w'' (Some 8001))
           \<lparr>currentGraph := Some ex_graphA, effects := [FetchWriteNode ''/a.md'' ''# A'']\<rparr>"
proof -
  have d: "[UpsertNode ex_nodeB] \<noteq> []" and d': "[UpsertNode ex_nodeA] \<noteq> []" by simp_all
  show ?thesis
    using applyGraphDelta_flow [OF d, of content "\<lambda>i. FetchThrows" ex_afterA "\<lambda>i. FetchOk"]
      applyGraphDelta_flow [OF d', of content "\<lambda>i. FetchNotOk" "initialState ''/w'' (Some 8001)"
        "\<lambda>i. FetchOk"]
    by (simp add: ex_afterA_eval initialState_def requestOf_def portSet_def mdPath_def
        endsWith_def MAX_UNDO_def applyGraphDeltaToGraph_def getCurrentGraph_def emptyGraph_def)
qed

text \<open>
  Claim C7 as stated fails in the initial state, where no graph has been adopted, no
  backend port is set and no subscriber is registered: the edit pushes no snapshot, sends
  no write request and calls no subscriber.
\<close>

theorem applyGraphDelta_snapshot_counterexample:
  "\<not> (undoStack (applyGraphDelta content (\<lambda>i. FetchOk) [UpsertNode ex_nodeA]
          (initialState ''/w'' None)) =
        undoStack (initialState ''/w'' None) @ [getCurrentGraph (initialState ''/w'' None)])
   \<and> effects (applyGraphDelta content (\<lambda>i. FetchOk) [UpsertNode ex_nodeA]
          (initialState ''/w'' None)) = []"
  by (simp add: initialState_def edit_defs)

text \<open>
  Claim C9. An undo or redo that finds its stack non-empty leaves the suppression flag
  set and a timeout of 5000 ms pending that clears it; a poll cycle that finds the flag set
  returns \<^verbatim>\<open>false\<close> with the state as it was (no fetch, no change of graph or
  fingerprint, no call of the subscriber); an expiring timeout clears the flag.
\<close>

theorem polling_suppressed_around_undo_redo:
  "(undoStack s \<noteq> [] \<longrightarrow>
      suppressPolling (performUndo s)
      \<and> timeouts (performUndo s) = timeouts s @ [(5000, ClearSuppressPolling)])
   \<and> (redoStack s \<noteq> [] \<longrightarrow>
      suppressPolling (performRedo s)
      \<and> timeouts (performRedo s) = timeouts s @ [(5000, ClearSuppressPolling)])
   \<and> (suppressPolling s \<longrightarrow> loadAndPushGraph parseRefs resp s = (False, s))
   \<and> (timeouts s \<noteq> [] \<longrightarrow>
      \<not> suppressPolling (fireTimeout s) \<and> timeouts (fireTimeout s) = tl (timeouts s))"
proof -
  have u: "suppressPolling (performUndo s)
      \<and> timeouts (performUndo s) = timeouts s @ [(5000, ClearSuppressPolling)]"
    if "undoStack s \<noteq> []"
    using that
    by (auto simp: performUndo_def pushFullGraphToUI_def Let_def split: option.splits)
  have r: "suppressPolling (performRedo s)
      \<and> timeouts (performRedo s) = timeouts s @ [(5000, ClearSuppressPolling)]"
    if "redoStack s \<noteq> []"
    using that
    by (auto simp: performRedo_def pushFullGraphToUI_def Let_def split: option.splits)
  have p: "loadAndPushGraph parseRefs resp s = (False, s)" if "suppressPolling s"
    using that by (simp add: loadAndPushGraph_def)
  have t: "\<not> suppressPolling (fireTimeout s) \<and> timeouts (fireTimeout s) = tl (timeouts s)"
    if "timeouts s \<noteq> []"
  proof (cases "timeouts s")
    case Nil
    then show ?thesis using that by simp
  next
    case (Cons a ts)
    then show ?thesis by (cases "snd a") (simp add: fireTimeout_def)
  qed
  show ?thesis using u r p t by blast
qed

theorem polling_suppressed_around_undo_redo_witness:
  "undoStack ex_afterAB \<noteq> [] \<and> suppressPolling (performUndo ex_afterAB)
   \<and> redoStack (performUndo ex_afterAB) \<noteq> []
   \<and> suppressPolling (performRedo (performUndo ex_afterAB))
   \<and> loadAndPushGraph wikiRefs (FilesOk [ex_fileA]) (performUndo ex_afterAB)
       = (False, performUndo ex_afterAB)
   \<and> timeouts (performUndo ex_afterAB) \<noteq> []
   \<and> \<not> suppressPolling (fireTimeout (performUndo ex_afterAB))"
proof -
  show ?thesis
    using polling_suppressed_around_undo_redo [of ex_afterAB wikiRefs "FilesOk [ex_fileA]"]
      polling_suppressed_around_undo_redo [of "performUndo ex_afterAB" wikiRefs
        "FilesOk [ex_fileA]"]
    by (simp add: ex_undo_eval) (simp add: ex_afterAB_eval)
qed

section \<open>The fingerprint comparison\<close>

lemma showNat_length_pos: "0 < length (showNat n)"
  by (subst showNat.simps) simp

lemma showNat_length_mono: "m \<le> n \<Longrightarrow> length (showNat m) \<le> length (showNat n)"
proof (induction n arbitrary: m rule: showNat.induct)
  case (1 n)
  show ?case
  proof (cases "n < 10")
    case True
    then have "m < 10" using "1.prems" by simp
    then show ?thesis using True by (simp add: showNat.simps[of m] showNat.simps[of n])
  next
    case False
    show ?thesis
    proof (cases "m < 10")
      case True
      have "length (showNat m) = 1" using True by (simp add: showNat.simps[of m])
      moreover have "0 < length (showNat n)" by (rule showNat_length_pos)
      ultimately show ?thesis by arith
    next
      case m: False
      have "m div 10 \<le> n div 10" using "1.prems" by (rule div_le_mono)
      then have "length (showNat (m div 10)) \<le> length (showNat (n div 10))"
        using "1.IH"[OF False] by simp
      then show ?thesis using False m by (simp add: showNat.simps[of m] showNat.simps[of n])
    qed
  qed
qed

lemma length_joinWith:
  "length (joinWith sep xs) = sum_list (map length xs) + (length xs - 1) * length sep"
  by (induction sep xs rule: joinWith.induct) simp_all

lemma fingerprintEntry_append_longer:
  assumes "length (file_content f) < 200"
  shows "length (fingerprintEntry f) < length (fingerprintEntry (f\<lparr>file_content := file_content f @ [c]\<rparr>))"
proof -
  have "length (showNat (length (file_content f))) \<le> length (showNat (Suc (length (file_content f))))"
    by (rule showNat_length_mono) simp
  then show ?thesis using assms by (simp add: fingerprintEntry_def)
qed

lemma fingerprintOf_append_char:
  assumes "length (file_content f) < 200"
  shows "fingerprintOf (pre @ [f\<lparr>file_content := file_content f @ [c]\<rparr>] @ post) \<noteq>
         fingerprintOf (pre @ [f] @ post)"
proof -
  have "length (fingerprintOf (pre @ [f] @ post)) <
        length (fingerprintOf (pre @ [f\<lparr>file_content := file_content f @ [c]\<rparr>] @ post))"
    using fingerprintEntry_append_longer[OF assms, of c]
    by (simp add: fingerprintOf_def length_joinWith)
  then show ?thesis by auto
qed

lemma poll_unchanged:
  assumes "portSet s" "\<not> suppressPolling s" "fingerprintOf files = lastFileFingerprint s"
  shows "loadAndPushGraph parseRefs (FilesOk files) s = (False, s\<lparr>effects := effects s @ pollFetches s\<rparr>)"
  using assms by (simp add: loadAndPushGraph_def pollFetches_def Let_def)

lemma poll_changed_fingerprint:
  assumes "portSet s" "\<not> suppressPolling s" "fingerprintOf files \<noteq> lastFileFingerprint s"
  shows "lastFileFingerprint (snd (loadAndPushGraph parseRefs (FilesOk files) s)) = fingerprintOf files"
  using assms
  by (auto simp: loadAndPushGraph_def Let_def notifyUI_def split: option.splits)

text \<open>
  Claim C4. For a poll cycle that reaches the fingerprint comparison (a port is set,
  polling is not suppressed, the fetch gives a listing): the cycle stops as unchanged, leaving the state
  as it was but for the requests sent, exactly when the fingerprint of the listing equals
  the stored one; in every case the fingerprint of the listing is the stored one afterwards,
  so that a second cycle over the same listing stops as unchanged too. Appending one
  character to the content of one file whose content is shorter than 200 gives a different
  fingerprint, and the cycle over that listing does not stop as unchanged.
\<close>

theorem fingerprint_gate:
  assumes "portSet s" and "\<not> suppressPolling s"
  shows "(loadAndPushGraph parseRefs (FilesOk files) s =
            (False, s\<lparr>effects := effects s @ pollFetches s\<rparr>))
          = (fingerprintOf files = lastFileFingerprint s)
       \<and> lastFileFingerprint (snd (loadAndPushGraph parseRefs (FilesOk files) s)) = fingerprintOf files
       \<and> (fingerprintOf files = lastFileFingerprint s \<longrightarrow>
            loadAndPushGraph parseRefs (FilesOk files)
              (snd (loadAndPushGraph parseRefs (FilesOk files) s)) =
              (False, s\<lparr>effects := effects s @ pollFetches s @ pollFetches s\<rparr>))
       \<and> (length (file_content f) < 200 \<longrightarrow>
            fingerprintOf (pre @ [f\<lparr>file_content := file_content f @ [c]\<rparr>] @ post) \<noteq>
            fingerprintOf (pre @ [f] @ post))
       \<and> (length (file_content f) < 200 \<and> files = pre @ [f] @ post
            \<and> lastFileFingerprint s = fingerprintOf files \<longrightarrow>
            loadAndPushGraph parseRefs
              (FilesOk (pre @ [f\<lparr>file_content := file_content f @ [c]\<rparr>] @ post)) s \<noteq>
              (False, s\<lparr>effects := effects s @ pollFetches s\<rparr>))"
proof -
  have iff: "(loadAndPushGraph parseRefs (FilesOk fs) s =
            (False, s\<lparr>effects := effects s @ pollFetches s\<rparr>))
          = (fingerprintOf fs = lastFileFingerprint s)" for fs
  proof
    assume eq: "loadAndPushGraph parseRefs (FilesOk fs) s =
            (False, s\<lparr>effects := effects s @ pollFetches s\<rparr>)"
    show "fingerprintOf fs = lastFileFingerprint s"
    proof (rule ccontr)
      assume ne: "fingerprintOf fs \<noteq> lastFileFingerprint s"
      have "lastFileFingerprint (snd (loadAndPushGraph parseRefs (FilesOk fs) s)) = fingerprintOf fs"
        using assms ne by (rule poll_changed_fingerprint)
      then show False using eq ne by simp
    qed
  next
    assume "fingerprintOf fs = lastFileFingerprint s"
    then show "loadAndPushGraph parseRefs (FilesOk fs) s =
            (False, s\<lparr>effects := effects s @ pollFetches s\<rparr>)"
      using assms poll_unchanged by blast
  qed
  have st: "lastFileFingerprint (snd (loadAndPushGraph parseRefs (FilesOk files) s)) = fingerprintOf files"
  proof (cases "fingerprintOf files = lastFileFingerprint s")
    case True
    then show ?thesis using assms by (simp add: poll_unchanged)
  next
    case False
    then show ?thesis using assms by (simp add: poll_changed_fingerprint)
  qed
  have twice: "loadAndPushGraph parseRefs (FilesOk files)
              (snd (loadAndPushGraph parseRefs (FilesOk files) s)) =
              (False, s\<lparr>effects := effects s @ pollFetches s @ pollFetches s\<rparr>)"
    if "fingerprintOf files = lastFileFingerprint s"
  proof -
    let ?s' = "s\<lparr>effects := effects s @ pollFetches s\<rparr>"
    have 1: "loadAndPushGraph parseRefs (FilesOk files) s = (False, ?s')"
      using assms that by (rule poll_unchanged)
    have 2: "portSet ?s'" "\<not> suppressPolling ?s'" "fingerprintOf files = lastFileFingerprint ?s'"
      using assms that by (simp_all add: portSet_def)
    have 3: "pollFetches ?s' = pollFetches s" by (simp add: pollFetches_def)
    show ?thesis
      using poll_unchanged[OF 2, of parseRefs] by (simp add: 1 3)
  qed
  have app: "fingerprintOf (pre @ [f\<lparr>file_content := file_content f @ [c]\<rparr>] @ post) \<noteq>
            fingerprintOf (pre @ [f] @ post)" if "length (file_content f) < 200"
    using that by (rule fingerprintOf_append_char)
  show ?thesis
    using iff[of files] iff[of "pre @ [f\<lparr>file_content := file_content f @ [c]\<rparr>] @ post"]
      st twice app
    by (metis (no_types, lifting))
qed

theorem fingerprint_gate_witness:
  "portSet ex_polled \<and> \<not> suppressPolling ex_polled
   \<and> fingerprintOf [ex_fileA, ex_fileB] = ''/a.md:3:# A|/b.md:9:# B'' @ [CHR 0x0A] @ ''[[a]]''
   \<and> fingerprintOf [ex_fileA, ex_fileB] = lastFileFingerprint ex_polled
   \<and> loadAndPushGraph wikiRefs (FilesOk [ex_fileA, ex_fileB]) ex_polled =
        (False, ex_polled\<lparr>effects := effects ex_polled @ [FetchFiles]\<rparr>)
   \<and> loadAndPushGraph wikiRefs (FilesOk [ex_fileA, ex_fileB])
        (snd (loadAndPushGraph wikiRefs (FilesOk [ex_fileA, ex_fileB]) ex_polled)) =
        (False, ex_polled\<lparr>effects := effects ex_polled @ [FetchFiles] @ [FetchFiles]\<rparr>)
   \<and> length (file_content ex_fileA) < 200
   \<and> [ex_fileA, ex_fileB] = [] @ [ex_fileA] @ [ex_fileB]
   \<and> fingerprintOf ([] @ [ex_fileA\<lparr>file_content := file_content ex_fileA @ [CHR ''!'']\<rparr>]
          @ [ex_fileB])
       \<noteq> fingerprintOf ([] @ [ex_fileA] @ [ex_fileB])
   \<and> loadAndPushGraph wikiRefs
        (FilesOk ([] @ [ex_fileA\<lparr>file_content := file_content ex_fileA @ [CHR ''!'']\<rparr>]
           @ [ex_fileB]))
        ex_polled \<noteq> (False, ex_polled\<lparr>effects := effects ex_polled @ [FetchFiles]\<rparr>)"
proof -
  have p: "portSet ex_polled" "\<not> suppressPolling ex_polled"
    by (simp_all add: ex_polled_eval portSet_def)
  have v: "fingerprintOf [ex_fileA, ex_fileB] = ''/a.md:3:# A|/b.md:9:# B'' @ [CHR 0x0A] @ ''[[a]]''"
    by (simp add: fingerprintOf_def fingerprintEntry_def showNat.simps digitChar_def)
  have f: "fingerprintOf [ex_fileA, ex_fileB] = lastFileFingerprint ex_polled"
    unfolding v by (simp add: ex_polled_eval)
  have q: "pollFetches ex_polled = [FetchFiles]"
    by (simp add: ex_polled_eval pollFetches_def)
  have l: "length (file_content ex_fileA) < 200" by simp
  have e: "[ex_fileA, ex_fileB] = [] @ [ex_fileA] @ [ex_fileB]" by simp
  note g = fingerprint_gate [OF p, where files = "[ex_fileA, ex_fileB]"
        and parseRefs = wikiRefs and f = ex_fileA and c = "CHR ''!''" and pre = "[]"
        and post = "[ex_fileB]", unfolded q]
  have c1: "loadAndPushGraph wikiRefs (FilesOk [ex_fileA, ex_fileB]) ex_polled =
        (False, ex_polled\<lparr>effects := effects ex_polled @ [FetchFiles]\<rparr>)"
    using g f by blast
  have c2: "loadAndPushGraph wikiRefs (FilesOk [ex_fileA, ex_fileB])
        (snd (loadAndPushGraph wikiRefs (FilesOk [ex_fileA, ex_fileB]) ex_polled)) =
        (False, ex_polled\<lparr>effects := effects ex_polled @ [FetchFiles] @ [FetchFiles]\<rparr>)"
    using g f by blast
  have c3: "fingerprintOf ([] @ [ex_fileA\<lparr>file_content := file_content ex_fileA @ [CHR ''!'']\<rparr>]
          @ [ex_fileB])
       \<noteq> fingerprintOf ([] @ [ex_fileA] @ [ex_fileB])"
    using g l by blast
  have c4: "loadAndPushGraph wikiRefs
        (FilesOk ([] @ [ex_fileA\<lparr>file_content := file_content ex_fileA @ [CHR ''!'']\<rparr>]
           @ [ex_fileB]))
        ex_polled \<noteq> (False, ex_polled\<lparr>effects := effects ex_polled @ [FetchFiles]\<rparr>)"
    using g l e f [symmetric] by blast
  show ?thesis
    using p v f c1 c2 l e c3 c4 by blast
qed

text \<open>
  Claim C5, at the inputs where the code departs from it. The fingerprint of the empty
  listing is the empty string, which is also the initial and the invalidated fingerprint:
  the first poll cycle over an empty listing stops as unchanged and adopts no graph, and a
  second cycle sends the load-directory request of the first call again; a forced refresh
  over an empty listing keeps the nodes of the current graph. The empty graph is adopted
  only when a non-empty listing was the last one seen.
\<close>

theorem empty_listing_skipped_by_gate:
  "loadAndPushGraph wikiRefs (FilesOk []) (initialState ''/w'' (Some 8001)) =
     (False, (initialState ''/w'' (Some 8001))\<lparr>effects := [FetchLoadDirectory, FetchFiles]\<rparr>)
   \<and> currentGraph (snd (loadAndPushGraph wikiRefs (FilesOk []) (initialState ''/w'' (Some 8001))))
       = None
   \<and> effects (snd (loadAndPushGraph wikiRefs (FilesOk [])
        (snd (loadAndPushGraph wikiRefs (FilesOk []) (initialState ''/w'' (Some 8001))))))
       = [FetchLoadDirectory, FetchFiles, FetchLoadDirectory, FetchFiles]
   \<and> currentGraph (refreshGraphFromBackend wikiRefs (FilesOk []) ex_afterAB) = Some ex_graphAB
   \<and> currentGraph (snd (loadAndPushGraph wikiRefs (FilesOk [])
        (snd (loadAndPushGraph wikiRefs (FilesOk [ex_fileA, ex_fileB]) ex_subscribed))))
       = Some emptyGraph"
  by (simp add: ex_poll_AB ex_afterAB_eval) (simp add: ex_subscribed_eval initialState_def poll_defs)

section \<open>Rebuild and merge\<close>

lemma preserveStep_keys: "map fst (preserveStep prevNodes newNodes k) = map fst newNodes"
  by (auto simp: preserveStep_def update_keys map_of_eq_None_iff[symmetric] split: option.splits)

lemma preserveStep_lookup:
  "map_of (preserveStep prevNodes newNodes k) k' =
     (if k' = k then map_option (mergedNode (map_of prevNodes k)) (map_of newNodes k)
      else map_of newNodes k')"
  by (cases "map_of newNodes k")
     (auto simp: preserveStep_def mergedNode_def update_conv' split: option.splits)

lemma mergedNode_idem: "mergedNode p (mergedNode p n) = mergedNode p n"
  by (auto simp: mergedNode_def split: option.splits)

lemma foldl_preserveStep_keys:
  "map fst (foldl (preserveStep prevNodes) newNodes ks) = map fst newNodes"
  by (induction ks rule: rev_induct) (simp_all add: preserveStep_keys)

lemma foldl_preserveStep_lookup:
  "map_of (foldl (preserveStep prevNodes) newNodes ks) k =
     (if k \<in> set ks then map_option (mergedNode (map_of prevNodes k)) (map_of newNodes k)
      else map_of newNodes k)"
proof (induction ks rule: rev_induct)
  case Nil
  show ?case by simp
next
  case (snoc a ks)
  show ?case
    using snoc
    by (cases "map_of newNodes k")
       (auto simp: preserveStep_lookup mergedNode_idem split: if_splits)
qed

lemma preservePositions_ids: "nodeIds (preservePositions prev g) = nodeIds g"
  by (simp add: preservePositions_def nodeIds_def foldl_preserveStep_keys)

lemma preservePositions_lookup:
  "lookupNode (preservePositions prev g) k = map_option (mergedNode (lookupNode prev k)) (lookupNode g k)"
proof (cases "k \<in> fst ` set (nodes g)")
  case True
  then show ?thesis
    by (simp add: preservePositions_def lookupNode_def foldl_preserveStep_lookup)
next
  case False
  then have "map_of (nodes g) k = None" by (simp add: map_of_eq_None_iff)
  then show ?thesis
    by (simp add: preservePositions_def lookupNode_def foldl_preserveStep_lookup)
qed

lemma buildGraph_Cons:
  "buildGraph parseRefs (f # fs) (g, acc) =
     buildGraph parseRefs fs
       (g\<lparr>nodes := AList.update (path f) (nodeOfFile parseRefs g f) (nodes g)\<rparr>,
        acc @ [UpsertNode (nodeOfFile parseRefs g f)])"
  by (simp add: addNodeToGraphWithEdgeHealingFromFSEvent_def applyGraphDeltaToGraph_def
      nodeOfFile_def Let_def)

lemma buildGraph_append:
  "buildGraph parseRefs (xs @ ys) (g, acc) =
   buildGraph parseRefs ys (buildGraph parseRefs xs (g, acc))"
proof (induction xs arbitrary: g acc)
  case Nil
  show ?case by simp
next
  case (Cons f fs)
  show ?case unfolding append_Cons buildGraph_Cons by (rule Cons)
qed

lemma buildGraph_ids:
  "set (nodeIds (fst (buildGraph parseRefs files (g, acc)))) = set (nodeIds g) \<union> path ` set files"
proof (induction files arbitrary: g acc)
  case Nil
  show ?case by simp
next
  case (Cons f fs)
  show ?case
    unfolding buildGraph_Cons Cons
    by (auto simp: nodeIds_def update_keys)
qed

lemma buildGraph_lookup_other:
  "k \<notin> path ` set files \<Longrightarrow>
   lookupNode (fst (buildGraph parseRefs files (g, acc))) k = lookupNode g k"
proof (induction files arbitrary: g acc)
  case Nil
  show ?case by simp
next
  case (Cons f fs)
  then show ?case
    unfolding buildGraph_Cons
    by (simp add: lookupNode_def update_conv')
qed

lemma buildGraph_deltas:
  "length (snd (buildGraph parseRefs files (g, acc))) = length acc + length files"
proof (induction files arbitrary: g acc)
  case Nil
  show ?case by simp
next
  case (Cons f fs)
  show ?case unfolding buildGraph_Cons Cons by simp
qed

lemma buildGraph_no_position:
  assumes "\<And>k n. lookupNode g k = Some n \<Longrightarrow> position (nodeUIMetadata n) = None"
    and "lookupNode (fst (buildGraph parseRefs files (g, acc))) k = Some n"
  shows "position (nodeUIMetadata n) = None"
  using assms
proof (induction files arbitrary: g acc)
  case Nil
  then show ?case by simp
next
  case (Cons f fs)
  show ?case
  proof (rule Cons.IH[OF _ Cons.prems(2)[unfolded buildGraph_Cons]])
    fix k' n'
    assume "lookupNode (g\<lparr>nodes := AList.update (path f) (nodeOfFile parseRefs g f) (nodes g)\<rparr>) k' = Some n'"
    then show "position (nodeUIMetadata n') = None"
      using Cons.prems(1)[of k' n']
      by (auto simp: lookupNode_def update_conv' nodeOfFile_def split: if_splits)
  qed
qed

lemma buildGraph_node:
  assumes "path f \<notin> path ` set post"
  shows "lookupNode (fst (buildGraph parseRefs (pre @ f # post) (createEmptyGraph, []))) (path f) =
     Some \<lparr>absoluteFilePathIsID = path f, content = file_content f,
           outgoingEdges = filter (\<lambda>t. t \<in> path ` set pre) (parseRefs (file_content f)),
           nodeUIMetadata = \<lparr>position = None\<rparr>\<rparr>"
proof -
  obtain g1 a1 where b1: "buildGraph parseRefs pre (createEmptyGraph, []) = (g1, a1)"
    by (cases "buildGraph parseRefs pre (createEmptyGraph, [])")
  have ids: "set (nodeIds g1) = path ` set pre"
    using buildGraph_ids[of parseRefs pre createEmptyGraph "[]"] b1
    by (simp add: createEmptyGraph_def nodeIds_def)
  have e: "buildGraph parseRefs (pre @ f # post) (createEmptyGraph, []) =
        buildGraph parseRefs post
          (g1\<lparr>nodes := AList.update (path f) (nodeOfFile parseRefs g1 f) (nodes g1)\<rparr>,
           a1 @ [UpsertNode (nodeOfFile parseRefs g1 f)])"
    by (simp add: buildGraph_append b1 buildGraph_Cons del: buildGraph.simps(2))
  have "lookupNode (fst (buildGraph parseRefs (pre @ f # post) (createEmptyGraph, []))) (path f) =
        Some (nodeOfFile parseRefs g1 f)"
    unfolding e buildGraph_lookup_other[OF assms]
    by (simp add: lookupNode_def update_conv')
  then show ?thesis
    using ids by (simp add: nodeOfFile_def)
qed

lemma poll_rebuild:
  assumes "portSet s" "\<not> suppressPolling s" "fingerprintOf files \<noteq> lastFileFingerprint s"
    "files \<noteq> []"
  shows "loadAndPushGraph parseRefs (FilesOk files) s =
     (True,
      s\<lparr>effects := effects s @ pollFetches s
           @ (if graphUpdateCallback s
              then [UICallback (snd (buildGraph parseRefs files (createEmptyGraph, [])))] else []),
        lastFileFingerprint := fingerprintOf files,
        currentGraph :=
          Some (case currentGraph s of
                  None \<Rightarrow> fst (buildGraph parseRefs files (createEmptyGraph, []))
                | Some cur \<Rightarrow>
                    preservePositions cur (fst (buildGraph parseRefs files (createEmptyGraph, []))))\<rparr>)"
proof -
  have d: "snd (buildGraph parseRefs files (createEmptyGraph, [])) \<noteq> []"
    using buildGraph_deltas[of parseRefs files createEmptyGraph "[]"] assms(4) by auto
  show ?thesis
    using assms d
    by (simp add: loadAndPushGraph_def pollFetches_def Let_def notifyUI_def)
qed

text \<open>
  Claim C1. The merge keeps the ids of the rebuilt graph, so an id that only the previous
  graph holds is dropped; for an id in both graphs whose previous node has a position, the
  merged node is the rebuilt node with that position; an id that only the rebuilt graph
  holds keeps its rebuilt node. A poll cycle that rebuilds adopts the merge of the rebuilt
  graph with the current one, and the nodes of a rebuilt graph carry no position.
\<close>

theorem positions_preserved_across_rebuild:
  "nodeIds (preservePositions prev fresh) = nodeIds fresh
   \<and> (lookupNode fresh k = None \<longrightarrow> lookupNode (preservePositions prev fresh) k = None)
   \<and> (lookupNode fresh k = Some n \<and> lookupNode prev k = Some pn
        \<and> position (nodeUIMetadata pn) = Some p \<longrightarrow>
      lookupNode (preservePositions prev fresh) k =
        Some (n\<lparr>nodeUIMetadata := (nodeUIMetadata n)\<lparr>position := Some p\<rparr>\<rparr>))
   \<and> (lookupNode fresh k = Some n \<and> lookupNode prev k = None \<longrightarrow>
      lookupNode (preservePositions prev fresh) k = Some n)
   \<and> (portSet s \<and> \<not> suppressPolling s \<and> files \<noteq> []
        \<and> fingerprintOf files \<noteq> lastFileFingerprint s \<and> currentGraph s = Some prev \<longrightarrow>
      currentGraph (snd (loadAndPushGraph parseRefs (FilesOk files) s)) =
        Some (preservePositions prev (fst (buildGraph parseRefs files (createEmptyGraph, [])))))
   \<and> (lookupNode (fst (buildGraph parseRefs files (createEmptyGraph, []))) k = Some n \<longrightarrow>
      position (nodeUIMetadata n) = None)"
proof -
  have np: "position (nodeUIMetadata n) = None"
    if "lookupNode (fst (buildGraph parseRefs files (createEmptyGraph, []))) k = Some n"
    using _ that
    by (rule buildGraph_no_position) (simp add: createEmptyGraph_def lookupNode_def)
  show ?thesis
    using np
    by (auto simp: preservePositions_ids preservePositions_lookup mergedNode_def poll_rebuild)
qed

theorem positions_preserved_across_rebuild_witness:
  "portSet ex_afterAB \<and> \<not> suppressPolling ex_afterAB
   \<and> [\<lparr>path = ''/a.md'', file_content = ''# A v2''\<rparr>, \<lparr>path = ''/c.md'', file_content = ''# C''\<rparr>] \<noteq> []
   \<and> fingerprintOf [\<lparr>path = ''/a.md'', file_content = ''# A v2''\<rparr>,
                     \<lparr>path = ''/c.md'', file_content = ''# C''\<rparr>] \<noteq> lastFileFingerprint ex_afterAB
   \<and> currentGraph ex_afterAB = Some ex_graphAB
   \<and> lookupNode ex_graphAB ''/a.md'' = Some ex_nodeA
   \<and> position (nodeUIMetadata ex_nodeA) = Some \<lparr>x = 10, y = 20\<rparr>
   \<and> lookupNode ex_graphAB ''/c.md'' = None
   \<and> lookupNode (fst (buildGraph wikiRefs
          [\<lparr>path = ''/a.md'', file_content = ''# A v2''\<rparr>,
           \<lparr>path = ''/c.md'', file_content = ''# C''\<rparr>] (createEmptyGraph, []))) ''/b.md'' = None
   \<and> lookupNode (getCurrentGraph (snd (loadAndPushGraph wikiRefs
        (FilesOk [\<lparr>path = ''/a.md'', file_content = ''# A v2''\<rparr>,
                  \<lparr>path = ''/c.md'', file_content = ''# C''\<rparr>]) ex_afterAB))) ''/b.md'' = None
   \<and> currentGraph (snd (loadAndPushGraph wikiRefs
        (FilesOk [\<lparr>path = ''/a.md'', file_content = ''# A v2''\<rparr>,
                  \<lparr>path = ''/c.md'', file_content = ''# C''\<rparr>]) ex_afterAB)) =
       Some \<lparr>nodes =
         [(''/a.md'', \<lparr>absoluteFilePathIsID = ''/a.md'', content = ''# A v2'', outgoingEdges = [],
                      nodeUIMetadata = \<lparr>position = Some \<lparr>x = 10, y = 20\<rparr>\<rparr>\<rparr>),
          (''/c.md'', \<lparr>absoluteFilePathIsID = ''/c.md'', content = ''# C'', outgoingEdges = [],
                      nodeUIMetadata = \<lparr>position = None\<rparr>\<rparr>)]\<rparr>"
proof -
  note inst = positions_preserved_across_rebuild [where prev = ex_graphAB
        and fresh = "fst (buildGraph wikiRefs [\<lparr>path = ''/a.md'', file_content = ''# A v2''\<rparr>,
                  \<lparr>path = ''/c.md'', file_content = ''# C''\<rparr>] (createEmptyGraph, []))"
        and s = ex_afterAB
        and files = "[\<lparr>path = ''/a.md'', file_content = ''# A v2''\<rparr>,
                  \<lparr>path = ''/c.md'', file_content = ''# C''\<rparr>]"
        and parseRefs = wikiRefs]
  show ?thesis
    using inst [where k = "''/a.md''"
        and n = "\<lparr>absoluteFilePathIsID = ''/a.md'', content = ''# A v2'', outgoingEdges = [],
                      nodeUIMetadata = \<lparr>position = None\<rparr>\<rparr>"
        and pn = ex_nodeA and p = "\<lparr>x = 10, y = 20\<rparr>"]
      inst [where k = "''/b.md''" and n = ex_nodeB and pn = ex_nodeB and p = "\<lparr>x = 10, y = 20\<rparr>"]
      inst [where k = "''/c.md''"
        and n = "\<lparr>absoluteFilePathIsID = ''/c.md'', content = ''# C'', outgoingEdges = [],
                      nodeUIMetadata = \<lparr>position = None\<rparr>\<rparr>"
        and pn = ex_nodeA and p = "\<lparr>x = 10, y = 20\<rparr>"]
    by (simp add: ex_afterAB_eval poll_defs)
qed

text \<open>
  Claim C6, amended. Whatever the state before a rebuilding poll cycle, the node of a
  file (the last one of its path in the listing) has an edge to exactly those targets that
  its content refers to and that the listing holds before it. A reference to a target that
  comes later in the listing is no edge after this rebuild, nor after any later rebuild of
  a listing in the same order.
\<close>

theorem rebuild_edges_follow_listing_order:
  assumes "portSet s" and "\<not> suppressPolling s"
    and "fingerprintOf (pre @ f # post) \<noteq> lastFileFingerprint s"
    and "path f \<notin> path ` set post"
  shows "hasEdge (getCurrentGraph (snd (loadAndPushGraph parseRefs (FilesOk (pre @ f # post)) s)))
           (path f) t
         = (t \<in> set (parseRefs (file_content f)) \<and> t \<in> path ` set pre)"
proof -
  let ?fresh = "fst (buildGraph parseRefs (pre @ f # post) (createEmptyGraph, []))"
  have n: "lookupNode ?fresh (path f) =
     Some \<lparr>absoluteFilePathIsID = path f, content = file_content f,
           outgoingEdges = filter (\<lambda>t. t \<in> path ` set pre) (parseRefs (file_content f)),
           nodeUIMetadata = \<lparr>position = None\<rparr>\<rparr>"
    using assms(4) by (rule buildGraph_node)
  have ne: "pre @ f # post \<noteq> []" by simp
  show ?thesis
    unfolding poll_rebuild[OF assms(1,2,3) ne]
    by (cases "currentGraph s")
       (auto simp: getCurrentGraph_def hasEdge_def preservePositions_lookup n mergedNode_def
         split: option.splits)
qed

theorem rebuild_edges_follow_listing_order_witness:
  "portSet ex_subscribed \<and> \<not> suppressPolling ex_subscribed
   \<and> fingerprintOf ([ex_fileA] @ ex_fileB # []) \<noteq> lastFileFingerprint ex_subscribed
   \<and> fingerprintOf ([] @ ex_fileB # [ex_fileA]) \<noteq> lastFileFingerprint ex_subscribed
   \<and> path ex_fileB \<notin> path ` set [ex_fileA]
   \<and> hasEdge (getCurrentGraph (snd (loadAndPushGraph wikiRefs
          (FilesOk ([ex_fileA] @ ex_fileB # [])) ex_subscribed))) ''/b.md'' ''/a.md''
   \<and> \<not> hasEdge (getCurrentGraph (snd (loadAndPushGraph wikiRefs
          (FilesOk ([] @ ex_fileB # [ex_fileA])) ex_subscribed))) ''/b.md'' ''/a.md''"
proof -
  have p: "portSet ex_subscribed" "\<not> suppressPolling ex_subscribed"
    by (simp_all add: ex_subscribed_eval portSet_def)
  have f1: "fingerprintOf ([ex_fileA] @ ex_fileB # []) \<noteq> lastFileFingerprint ex_subscribed"
    and f2: "fingerprintOf ([] @ ex_fileB # [ex_fileA]) \<noteq> lastFileFingerprint ex_subscribed"
    by (simp_all add: ex_subscribed_eval fingerprintOf_def fingerprintEntry_def)
  have d1: "path ex_fileB \<notin> path ` set []" and d2: "path ex_fileB \<notin> path ` set [ex_fileA]"
    by simp_all
  show ?thesis
    using p f1 f2 d2
      rebuild_edges_follow_listing_order [OF p f1 d1, of wikiRefs "''/a.md''"]
      rebuild_edges_follow_listing_order [OF p f2 d2, of wikiRefs "''/a.md''"]
    by (simp add: wikiRefs_def)
qed

text \<open>
  Claim C6 as stated fails for the reversed listing of the example scenario: the edge
  from \<^verbatim>\<open>/b.md\<close> to \<^verbatim>\<open>/a.md\<close> is missing after the first rebuild and still
  missing after a forced second rebuild of the same listing.
\<close>

theorem second_rebuild_counterexample:
  "\<not> hasEdge (getCurrentGraph (snd (loadAndPushGraph wikiRefs (FilesOk [ex_fileB, ex_fileA])
          ex_subscribed))) ''/b.md'' ''/a.md''
   \<and> fst (loadAndPushGraph wikiRefs (FilesOk [ex_fileB, ex_fileA])
          ((snd (loadAndPushGraph wikiRefs (FilesOk [ex_fileB, ex_fileA]) ex_subscribed))
             \<lparr>lastFileFingerprint := []\<rparr>))
   \<and> \<not> hasEdge (getCurrentGraph (refreshGraphFromBackend wikiRefs (FilesOk [ex_fileB, ex_fileA])
          (snd (loadAndPushGraph wikiRefs (FilesOk [ex_fileB, ex_fileA]) ex_subscribed))))
        ''/b.md'' ''/a.md''"
  by (simp add: ex_poll_BA) (simp add: ex_subscribed_eval poll_defs)

end
